theory Spec2Isabelle
  imports Complex_Main "HOL-Library.Log_Nat"
begin

section \<open>Data model\<close>

text \<open>
  The values a key of the configuration dictionaries can hold. The embedding covers
  \<^verbatim>\<open>None\<close>, Python's unbounded integers and lists (an example of an object that both
  \<^verbatim>\<open>int()\<close> and \<^verbatim>\<open>float()\<close> reject); strings and floats as configured values are
  outside it.
\<close>

datatype pyval = PNone | PInt int | PList "pyval list"

text \<open>
  The exceptions of the source that can reach a caller. \<open>LLMException\<close> is whatever
  \<^verbatim>\<open>llm.invoke\<close> raises, with its text; \<open>ProcessError\<close> is whatever the enumeration
  of the processes raises apart from the three exceptions \<^verbatim>\<open>find_process_on_port\<close>
  catches.
\<close>

datatype exn = IndexError | TypeError | ValueError | OverflowError | EOFError
  | LLMException string | ProcessError string

text \<open>What \<^verbatim>\<open>requests.get\<close> does: a response (status code, body) or an exception (its text).\<close>

datatype http_result = Response int string | ConnectionError string | RequestException string

text \<open>What \<^verbatim>\<open>llm.invoke\<close> does: a response with a content, or an exception.\<close>

datatype llm_result = Content string | LlmError string

text \<open>One entry of \<^verbatim>\<open>API_SERVICES\<close> (config.py).\<close>

record service_config =
  port :: int
  health_url :: string
  test_url :: string
  app_module :: string

text \<open>\<^verbatim>\<open>MonitorState\<close> (multi_api_monitor.py, lines 16-30).\<close>

record monitor_state =
  api_name :: string
  api_url :: string
  api_port :: int
  api_status :: string
  error_details :: string
  agent_analysis :: string
  email_subject :: string
  email_body :: string
  human_approval :: string
  action_taken :: string
  email_sent :: bool
  restart_attempted :: bool
  recovery_status :: string
  recovery_email_sent :: bool

text \<open>The nodes of the graph built by \<^verbatim>\<open>create_monitoring_graph\<close>.\<close>

datatype node = N_check_health | N_analyze_alert | N_human_review_alert | N_send_alert_email
  | N_attempt_restart | N_analyze_recovery | N_human_review_recovery | N_send_recovery_email

text \<open>
  The effects of the program on its surroundings, in the order they happen:
  an HTTP GET (url, timeout), a call of the language model (the kind of email asked for),
  a call of \<^verbatim>\<open>send_email_alert\<close> (subject, body), a \<^verbatim>\<open>time.sleep\<close> (seconds),
  \<^verbatim>\<open>proc.kill()\<close> on a process id, \<^verbatim>\<open>subprocess.Popen\<close> (the arguments after the
  interpreter), and the graph starting a node on a state. Console output is not modelled.
\<close>

datatype event = EGet string real | ELlm string | EMail string string | ESleep real
  | EKill nat | ELaunch "string list" | ENode node monitor_state

text \<open>
  The surroundings of the program: the two configuration dictionaries, and for every
  kind of call to a collaborator the answer to its n-th call. For \<open>smtp_replies\<close> and
  \<open>kill_replies\<close>, \<open>None\<close> is a call that returns and \<open>Some e\<close> one that raises with
  text \<open>e\<close>; \<open>find_replies\<close> is the process \<^verbatim>\<open>find_process_on_port\<close> returns, or
  the text of an exception of the enumeration that it does not catch;
  \<open>popen_replies\<close> is the process id of the child or the text of the exception.
\<close>

record env =
  API_SERVICES :: "(string \<times> service_config) list"
  MONITORING_CONFIG :: "string \<rightharpoonup> pyval"
  http_replies :: "nat \<Rightarrow> http_result"
  llm_replies :: "nat \<Rightarrow> llm_result"
  smtp_replies :: "nat \<Rightarrow> string option"
  find_replies :: "nat \<Rightarrow> string + nat option"
  kill_replies :: "nat \<Rightarrow> string option"
  popen_replies :: "nat \<Rightarrow> string + nat"

text \<open>
  The state threaded through the program: how many calls of each kind were made, the
  lines still to be typed at the console, and the effects so far.
\<close>

record world =
  http_n :: nat
  llm_n :: nat
  smtp_n :: nat
  find_n :: nat
  kill_n :: nat
  popen_n :: nat
  stdin :: "string list"
  log :: "event list"

definition emit :: "event \<Rightarrow> world \<Rightarrow> world" where
  "emit e w = w\<lparr>log := log w @ [e]\<rparr>"

section \<open>Python built-ins\<close>

text \<open>
  Strings are byte lists holding UTF-8. \<^verbatim>\<open>str(n)\<close> for an integer:
\<close>

fun str_nat :: "nat \<Rightarrow> string" where
  "str_nat n = (if n < 10 then [''0123456789'' ! n]
                else str_nat (n div 10) @ [''0123456789'' ! (n mod 10)])"

declare str_nat.simps [simp del]

definition py_str :: "int \<Rightarrow> string" where
  "py_str i = (if i < 0 then CHR ''-'' # str_nat (nat (- i)) else str_nat (nat i))"

text \<open>
  \<^verbatim>\<open>int(v)\<close> and \<^verbatim>\<open>float(v)\<close>. A float is modelled by the real number it stands
  for. \<open>round_double\<close> is the double nearest to an integer that is not negative: the
  integer itself below \<open>2 ^ 53\<close>, and beyond it the 53 leading bits, rounded to even
  on a tie. \<^verbatim>\<open>float\<close> raises \<^verbatim>\<open>OverflowError\<close> where the rounded value exceeds
  the largest double.
\<close>

fun py_int :: "pyval \<Rightarrow> exn + int" where
  "py_int PNone = Inl TypeError"
| "py_int (PInt n) = Inr n"
| "py_int (PList xs) = Inl TypeError"

definition round_double :: "int \<Rightarrow> int" where
  "round_double a =
     (if a < 2 ^ 53 then a
      else let e = nat (bitlen a - 53); q = a div 2 ^ e; r = a mod 2 ^ e; h = 2 ^ (e - 1)
           in (if h < r \<or> (r = h \<and> odd q) then q + 1 else q) * 2 ^ e)"

fun py_float :: "pyval \<Rightarrow> exn + real" where
  "py_float PNone = Inl TypeError"
| "py_float (PInt n) =
     (if 2 ^ 1024 \<le> round_double \<bar>n\<bar> then Inl OverflowError
      else Inr (real_of_int (sgn n * round_double \<bar>n\<bar>)))"
| "py_float (PList xs) = Inl TypeError"

text \<open>
  \<^verbatim>\<open>time.sleep(secs)\<close>: a negative argument is a \<^verbatim>\<open>ValueError\<close>, one beyond the
  range of the 64-bit nanosecond clock an \<^verbatim>\<open>OverflowError\<close>. A wait within the
  uptime of the machine below that range (some 292 years) can be refused by the operating
  system instead; the theorems below speak of waits under \<open>2 ^ 62\<close> nanoseconds only.
\<close>

definition py_sleep :: "real \<Rightarrow> world \<Rightarrow> (exn + unit) \<times> world" where
  "py_sleep secs w =
     (if secs < 0 then (Inl ValueError, w)
      else if 2 ^ 63 \<le> secs * 10 ^ 9 then (Inl OverflowError, w)
      else (Inr (), emit (ESleep secs) w))"

text \<open>\<^verbatim>\<open>requests.get(url, timeout=t)\<close>: the next answer of the network.\<close>

definition requests_get :: "env \<Rightarrow> string \<Rightarrow> real \<Rightarrow> world \<Rightarrow> http_result \<times> world" where
  "requests_get E url t w =
     (http_replies E (http_n w), emit (EGet url t) (w\<lparr>http_n := Suc (http_n w)\<rparr>))"

text \<open>\<^verbatim>\<open>xs[i]\<close> for an index that is not negative.\<close>

definition py_index :: "'a list \<Rightarrow> nat \<Rightarrow> exn + 'a" where
  "py_index xs i = (if i < length xs then Inr (xs ! i) else Inl IndexError)"

text \<open>
  \<^verbatim>\<open>s.split(sep)\<close>: the segments between the occurrences of \<open>sep\<close>, found from the
  left and not overlapping; an empty separator is a \<^verbatim>\<open>ValueError\<close>. \<open>split_from\<close>
  carries the segment read so far.
\<close>

fun split_from :: "string \<Rightarrow> string \<Rightarrow> string \<Rightarrow> string list" where
  "split_from sep cur [] = [cur]"
| "split_from sep cur (c # cs) =
     (if sep \<noteq> [] \<and> take (length sep) (c # cs) = sep
      then cur # split_from sep [] (drop (length sep - 1) cs)
      else split_from sep (cur @ [c]) cs)"

definition py_split :: "string \<Rightarrow> string \<Rightarrow> exn + string list" where
  "py_split sep s = (if sep = [] then Inl ValueError else Inr (split_from sep [] s))"

text \<open>\<^verbatim>\<open>s.replace(old, "")\<close> for a non-empty \<open>old\<close>: every occurrence, from the left, is dropped.\<close>

fun replace_del :: "string \<Rightarrow> string \<Rightarrow> string" where
  "replace_del old [] = []"
| "replace_del old (c # cs) =
     (if old \<noteq> [] \<and> take (length old) (c # cs) = old
      then replace_del old (drop (length old - 1) cs)
      else c # replace_del old cs)"

text \<open>
  \<^verbatim>\<open>s.strip()\<close> removes the white space of Unicode at both ends; \<open>whitespace\<close> lists the
  UTF-8 encodings of the characters for which \<^verbatim>\<open>str.isspace\<close> holds.
\<close>

definition whitespace :: "string list" where
  "whitespace =
     map (\<lambda>c. [c]) [CHR 0x09, CHR 0x0A, CHR 0x0B, CHR 0x0C, CHR 0x0D,
                    CHR 0x1C, CHR 0x1D, CHR 0x1E, CHR 0x1F, CHR 0x20]
     @ [[CHR 0xC2, CHR 0x85], [CHR 0xC2, CHR 0xA0], [CHR 0xE1, CHR 0x9A, CHR 0x80]]
     @ map (\<lambda>c. [CHR 0xE2, CHR 0x80, c])
         [CHR 0x80, CHR 0x81, CHR 0x82, CHR 0x83, CHR 0x84, CHR 0x85, CHR 0x86, CHR 0x87,
          CHR 0x88, CHR 0x89, CHR 0x8A, CHR 0xA8, CHR 0xA9, CHR 0xAF]
     @ [[CHR 0xE2, CHR 0x81, CHR 0x9F], [CHR 0xE3, CHR 0x80, CHR 0x80]]"

fun strip_left :: "string list \<Rightarrow> string \<Rightarrow> string" where
  "strip_left ws [] = []"
| "strip_left ws (c # cs) =
     (case find (\<lambda>x. x \<noteq> [] \<and> take (length x) (c # cs) = x) ws of
        None \<Rightarrow> c # cs
      | Some x \<Rightarrow> strip_left ws (drop (length x - 1) cs))"

definition py_strip :: "string \<Rightarrow> string" where
  "py_strip s = rev (strip_left (map rev whitespace) (rev (strip_left whitespace s)))"

text \<open>\<^verbatim>\<open>sep.join(xs)\<close>.\<close>

fun py_join :: "string \<Rightarrow> string list \<Rightarrow> string" where
  "py_join sep [] = []"
| "py_join sep [x] = x"
| "py_join sep (x # y # ys) = x @ sep @ py_join sep (y # ys)"

section \<open>api_restart_manager.py\<close>

text \<open>\<^verbatim>\<open>DEFAULT_MONITORING_CONFIG\<close> (lines 11-15).\<close>

definition DEFAULT_MONITORING_CONFIG :: "string \<rightharpoonup> pyval" where
  "DEFAULT_MONITORING_CONFIG =
     [''health_check_attempts'' \<mapsto> PInt 10,
      ''health_check_wait'' \<mapsto> PInt 3,
      ''health_check_timeout'' \<mapsto> PInt 5]"

text \<open>
  \<^verbatim>\<open>_merged_monitoring_config\<close> (lines 17-25): the defaults, overwritten by every entry
  of \<^verbatim>\<open>MONITORING_CONFIG\<close> whose value is not \<^verbatim>\<open>None\<close>.
\<close>

definition merged_monitoring_config :: "env \<Rightarrow> (string \<rightharpoonup> pyval)" where
  "merged_monitoring_config E =
     (\<lambda>k. case MONITORING_CONFIG E k of
             None \<Rightarrow> DEFAULT_MONITORING_CONFIG k
           | Some v \<Rightarrow> if v \<noteq> PNone then Some v else DEFAULT_MONITORING_CONFIG k)"

text \<open>
  \<^verbatim>\<open>_to_int\<close> and \<^verbatim>\<open>_to_float\<close> (lines 27-37), applied to the result of
  \<^verbatim>\<open>cfg.get(key)\<close>, which is \<^verbatim>\<open>None\<close> for a key that is absent.
\<close>

definition dict_get :: "(string \<rightharpoonup> pyval) \<Rightarrow> string \<Rightarrow> pyval" where
  "dict_get d k = (case d k of None \<Rightarrow> PNone | Some v \<Rightarrow> v)"

definition to_int :: "pyval \<Rightarrow> int \<Rightarrow> int" where
  "to_int v d = (case py_int v of Inl e \<Rightarrow> d | Inr n \<Rightarrow> n)"

definition to_float :: "pyval \<Rightarrow> real \<Rightarrow> real" where
  "to_float v d = (case py_float v of Inl e \<Rightarrow> d | Inr x \<Rightarrow> x)"

text \<open>
  \<^verbatim>\<open>find_process_on_port\<close> (lines 39-50): the process the operating system reports.
  Only \<^verbatim>\<open>NoSuchProcess\<close>, \<^verbatim>\<open>AccessDenied\<close> and \<^verbatim>\<open>ZombieProcess\<close> are caught;
  any other exception of the enumeration leaves the function.
\<close>

definition find_process_on_port :: "env \<Rightarrow> int \<Rightarrow> world \<Rightarrow> (exn + nat option) \<times> world" where
  "find_process_on_port E p w =
     (case find_replies E (find_n w) of
        Inl e \<Rightarrow> (Inl (ProcessError e), w\<lparr>find_n := Suc (find_n w)\<rparr>)
      | Inr proc \<Rightarrow> (Inr proc, w\<lparr>find_n := Suc (find_n w)\<rparr>))"

text \<open>
  \<^verbatim>\<open>kill_api_on_port\<close> (lines 52-68). The call of \<^verbatim>\<open>find_process_on_port\<close> on
  line 54 is before the \<^verbatim>\<open>try\<close>, so its exception leaves this function too.
  \<^verbatim>\<open>proc.kill()\<close> and \<^verbatim>\<open>proc.wait(timeout=5)\<close> are one call to the surroundings;
  when it raises, the function returns \<^verbatim>\<open>False\<close>.
\<close>

definition kill_api_on_port :: "env \<Rightarrow> int \<Rightarrow> world \<Rightarrow> (exn + bool) \<times> world" where
  "kill_api_on_port E p w =
     (case find_process_on_port E p w of
        (Inl e, w1) \<Rightarrow> (Inl e, w1)
      | (Inr (Some pid), w1) \<Rightarrow>
          (let w2 = emit (EKill pid) (w1\<lparr>kill_n := Suc (kill_n w1)\<rparr>)
           in case kill_replies E (kill_n w1) of
                Some e \<Rightarrow> (Inr False, w2)
              | None \<Rightarrow> (case py_sleep 2 w2 of
                           (Inl e, w3) \<Rightarrow> (Inr False, w3)
                         | (Inr u, w3) \<Rightarrow> (Inr True, w3)))
      | (Inr None, w1) \<Rightarrow> (Inr True, w1))"

text \<open>
  \<^verbatim>\<open>start_specific_api\<close> (lines 70-120): \<^verbatim>\<open>None\<close> for an unknown name and when
  \<^verbatim>\<open>Popen\<close> raises, the process otherwise.
\<close>

definition start_specific_api :: "env \<Rightarrow> string \<Rightarrow> world \<Rightarrow> nat option \<times> world" where
  "start_specific_api E name w =
     (case map_of (API_SERVICES E) name of
        None \<Rightarrow> (None, w)
      | Some config \<Rightarrow>
          (let cmd = [''-m'', ''uvicorn'', app_module config,
                      ''--host'', ''0.0.0.0'', ''--port'', py_str (port config)];
               w1 = emit (ELaunch cmd) (w\<lparr>popen_n := Suc (popen_n w)\<rparr>)
           in case popen_replies E (popen_n w) of
                Inl e \<Rightarrow> (None, w1)
              | Inr process \<Rightarrow> (Some process, w1)))"

text \<open>
  The numeric parameters of \<^verbatim>\<open>verify_api_health\<close> (lines 128-138):
  \<open>(max_attempts, wait_time, timeout)\<close>.
\<close>

definition health_check_params :: "env \<Rightarrow> int \<times> real \<times> real" where
  "health_check_params E =
     (let cfg = merged_monitoring_config E;
          max_attempts = to_int (dict_get cfg ''health_check_attempts'') 10;
          wait_time = to_float (dict_get cfg ''health_check_wait'') 3;
          timeout = to_float (dict_get cfg ''health_check_timeout'') 5;
          max_attempts = (if max_attempts < 1 then 1 else max_attempts);
          wait_time = (if wait_time < 0 then 0 else wait_time);
          timeout = (if timeout \<le> 0 then 5 else timeout)
      in (max_attempts, wait_time, timeout))"

text \<open>
  The loop of \<^verbatim>\<open>verify_api_health\<close> (lines 142-158), by the number of attempts left.
  An exception of \<^verbatim>\<open>time.sleep\<close> or of \<^verbatim>\<open>requests.get\<close> ends the attempt, not the loop.
\<close>

fun verify_loop :: "env \<Rightarrow> string \<Rightarrow> real \<Rightarrow> real \<Rightarrow> nat \<Rightarrow> world \<Rightarrow> bool \<times> world" where
  "verify_loop E url wait_time timeout 0 w = (False, w)"
| "verify_loop E url wait_time timeout (Suc k) w =
     (case py_sleep wait_time w of
        (Inl e, w1) \<Rightarrow> verify_loop E url wait_time timeout k w1
      | (Inr u, w1) \<Rightarrow>
          (case requests_get E url timeout w1 of
             (Response status_code body, w2) \<Rightarrow>
               if status_code = 200 then (True, w2)
               else verify_loop E url wait_time timeout k w2
           | (ConnectionError e, w2) \<Rightarrow> verify_loop E url wait_time timeout k w2
           | (RequestException e, w2) \<Rightarrow> verify_loop E url wait_time timeout k w2))"

text \<open>\<^verbatim>\<open>verify_api_health\<close> (lines 122-158).\<close>

definition verify_api_health :: "env \<Rightarrow> string \<Rightarrow> world \<Rightarrow> bool \<times> world" where
  "verify_api_health E name w =
     (case map_of (API_SERVICES E) name of
        None \<Rightarrow> (False, w)
      | Some config \<Rightarrow>
          (case health_check_params E of
             (max_attempts, wait_time, timeout) \<Rightarrow>
               verify_loop E (health_url config) wait_time timeout (nat max_attempts) w))"

text \<open>
  \<^verbatim>\<open>restart_specific_api\<close> (lines 160-194). The call of \<^verbatim>\<open>kill_api_on_port\<close> on
  line 172 is in no \<^verbatim>\<open>try\<close>; what it returns only decides whether a warning is
  printed.
\<close>

definition restart_specific_api :: "env \<Rightarrow> string \<Rightarrow> world \<Rightarrow> (exn + bool) \<times> world" where
  "restart_specific_api E name w =
     (case map_of (API_SERVICES E) name of
        None \<Rightarrow> (Inr False, w)
      | Some config \<Rightarrow>
          (case kill_api_on_port E (port config) w of
             (Inl e, w1) \<Rightarrow> (Inl e, w1)
           | (Inr killed, w1) \<Rightarrow>
               (case start_specific_api E name w1 of
                  (None, w2) \<Rightarrow> (Inr False, w2)
                | (Some process, w2) \<Rightarrow>
                    (case verify_api_health E name w2 of
                       (success, w3) \<Rightarrow> (Inr success, w3)))))"

section \<open>multi_api_monitor.py\<close>

text \<open>The two emoji of the messages, in UTF-8.\<close>

definition check_mark :: string where
  "check_mark = [CHR 0xE2, CHR 0x9C, CHR 0x85]"

definition cross_mark :: string where
  "cross_mark = [CHR 0xE2, CHR 0x9D, CHR 0x8C]"

text \<open>
  \<^verbatim>\<open>check_api_health\<close> (lines 38-59). Every exception of \<^verbatim>\<open>requests.get\<close> is caught
  by the \<^verbatim>\<open>except Exception\<close> of the node.
\<close>

definition check_api_health :: "env \<Rightarrow> monitor_state \<Rightarrow> world \<Rightarrow> (exn + monitor_state) \<times> world" where
  "check_api_health E s w =
     (case requests_get E (api_url s) 5 w of
        (r, w1) \<Rightarrow>
          (let s1 = (case r of
                 Response status_code body \<Rightarrow>
                   if status_code = 200
                   then s\<lparr>api_status := ''healthy'',
                          error_details := api_name s @ '' is functioning normally on port ''
                                           @ py_str (api_port s)\<rparr>
                   else s\<lparr>api_status := ''unhealthy'',
                          error_details := ''Status Code: '' @ py_str status_code
                                           @ ''\<newline>Response: '' @ body\<rparr>
               | ConnectionError e \<Rightarrow>
                   s\<lparr>api_status := ''down'',
                     error_details := ''Connection Error: '' @ e
                                      @ ''\<newline>Port: '' @ py_str (api_port s)\<rparr>
               | RequestException e \<Rightarrow>
                   s\<lparr>api_status := ''down'',
                     error_details := ''Connection Error: '' @ e
                                      @ ''\<newline>Port: '' @ py_str (api_port s)\<rparr>)
           in (Inr (s1\<lparr>email_sent := False, restart_attempted := False,
                        recovery_email_sent := False\<rparr>), w1)))"

text \<open>
  \<^verbatim>\<open>agent_analyze\<close> (lines 61-146). The text of the prompt is not modelled, only which
  of the two prompts is sent. Neither \<^verbatim>\<open>llm.invoke\<close> nor the three index reads are
  inside a \<^verbatim>\<open>try\<close>.
\<close>

definition agent_analyze :: "env \<Rightarrow> monitor_state \<Rightarrow> world \<Rightarrow> (exn + monitor_state) \<times> world" where
  "agent_analyze E s w =
     (let email_type = (if recovery_status s = ''success'' then ''recovery'' else ''alert'');
          w1 = emit (ELlm email_type) (w\<lparr>llm_n := Suc (llm_n w)\<rparr>)
      in case llm_replies E (llm_n w) of
           LlmError e \<Rightarrow> (Inl (LLMException e), w1)
         | Content content \<Rightarrow>
             (case py_split ''---'' content of
                Inl e \<Rightarrow> (Inl e, w1)
              | Inr parts \<Rightarrow>
                  (case py_index parts 0 of
                     Inl e \<Rightarrow> (Inl e, w1)
                   | Inr p0 \<Rightarrow>
                       (case py_index parts 1 of
                          Inl e \<Rightarrow> (Inl e, w1)
                        | Inr p1 \<Rightarrow>
                            (case py_index parts 2 of
                               Inl e \<Rightarrow> (Inl e, w1)
                             | Inr p2 \<Rightarrow>
                                 (Inr (s\<lparr>agent_analysis := py_strip (replace_del ''ANALYSIS:'' p0),
                                         email_subject := py_strip (replace_del ''SUBJECT:'' p1),
                                         email_body := py_strip (replace_del ''EMAIL_BODY:'' p2)\<rparr>),
                                  w1))))))"

text \<open>
  \<^verbatim>\<open>restart_delay\<close> seconds of \<^verbatim>\<open>time.sleep(1)\<close> (lines 157-159).
\<close>

fun countdown :: "nat \<Rightarrow> world \<Rightarrow> world" where
  "countdown 0 w = w"
| "countdown (Suc k) w = countdown k (snd (py_sleep 1 w))"

text \<open>
  \<^verbatim>\<open>attempt_restart\<close> (lines 148-166). Neither \<^verbatim>\<open>int(...)\<close> on line 152 nor the
  call of \<^verbatim>\<open>restart_specific_api\<close> on line 162 is inside a \<^verbatim>\<open>try\<close>.
\<close>

definition attempt_restart :: "env \<Rightarrow> monitor_state \<Rightarrow> world \<Rightarrow> (exn + monitor_state) \<times> world" where
  "attempt_restart E s w =
     (case py_int (case MONITORING_CONFIG E ''restart_delay'' of None \<Rightarrow> PInt 30 | Some v \<Rightarrow> v) of
        Inl e \<Rightarrow> (Inl e, w)
      | Inr d \<Rightarrow>
          (let restart_delay = (if d < 0 then 0 else d);
               w1 = countdown (nat restart_delay) w
           in case restart_specific_api E (api_name s) w1 of
                (Inl e, w2) \<Rightarrow> (Inl e, w2)
              | (Inr success, w2) \<Rightarrow>
                  (Inr (s\<lparr>restart_attempted := True,
                          recovery_status := (if success then ''success'' else ''failed'')\<rparr>),
                   w2)))"

text \<open>
  The inner loop of \<^verbatim>\<open>human_review\<close> (lines 208-213): lines up to \<^verbatim>\<open>END\<close>. At the
  end of the input \<^verbatim>\<open>input()\<close> raises \<^verbatim>\<open>EOFError\<close>, here \<open>None\<close>.
\<close>

fun read_body :: "string list \<Rightarrow> string list \<Rightarrow> string list option \<times> string list" where
  "read_body acc [] = (None, [])"
| "read_body acc (l # ls) = (if l = ''END'' then (Some acc, ls) else read_body (acc @ [l]) ls)"

lemma read_body_length: "length (snd (read_body acc ls)) \<le> length ls"
  by (induction ls arbitrary: acc) (auto intro: le_SucI)

text \<open>
  The loop of \<^verbatim>\<open>human_review\<close> (lines 191-218) on the lines the operator types.
\<close>

function review_loop :: "monitor_state \<Rightarrow> string list \<Rightarrow> (exn + monitor_state) \<times> string list" where
  "review_loop s [] = (Inl EOFError, [])"
| "review_loop s (l # ls) =
     (if py_strip l = ''1'' then (Inr (s\<lparr>human_approval := ''approved''\<rparr>), ls)
      else if py_strip l = ''2'' then (Inr (s\<lparr>human_approval := ''rejected''\<rparr>), ls)
      else if py_strip l = ''3'' then
        (case read_body [] ls of
           (None, rest) \<Rightarrow> (Inl EOFError, rest)
         | (Some lines, rest) \<Rightarrow> review_loop (s\<lparr>email_body := py_join ''\<newline>'' lines\<rparr>) rest)
      else if py_strip l = ''4'' then
        (case ls of
           [] \<Rightarrow> (Inl EOFError, [])
         | subject # rest \<Rightarrow> review_loop (s\<lparr>email_subject := py_strip subject\<rparr>) rest)
      else review_loop s ls)"
  by pat_completeness auto
termination
proof (relation "measure (\<lambda>(s, ls). length ls)", simp_all)
  fix ls :: "string list" and lines rest
  assume "(Some lines, rest) = read_body [] ls"
  then show "length rest < Suc (length ls)"
    using read_body_length [of "[]" ls] by (metis le_imp_less_Suc snd_conv)
qed

text \<open>\<^verbatim>\<open>human_review\<close> (lines 168-220).\<close>

definition human_review :: "env \<Rightarrow> monitor_state \<Rightarrow> world \<Rightarrow> (exn + monitor_state) \<times> world" where
  "human_review E s w =
     (case review_loop s (stdin w) of (r, rest) \<Rightarrow> (r, w\<lparr>stdin := rest\<rparr>))"

text \<open>
  \<^verbatim>\<open>send_email_alert\<close> (email_webhook.py): the call returns or raises, as the mail
  server decides.
\<close>

definition send_email_alert :: "env \<Rightarrow> string \<Rightarrow> string \<Rightarrow> world \<Rightarrow> string option \<times> world" where
  "send_email_alert E message subject w =
     (smtp_replies E (smtp_n w), emit (EMail subject message) (w\<lparr>smtp_n := Suc (smtp_n w)\<rparr>))"

text \<open>\<^verbatim>\<open>send_email_action\<close> (lines 222-253).\<close>

definition send_email_action :: "env \<Rightarrow> monitor_state \<Rightarrow> world \<Rightarrow> (exn + monitor_state) \<times> world" where
  "send_email_action E s w =
     (let is_recovery = (recovery_status s = ''success'')
      in if is_recovery \<and> recovery_email_sent s then (Inr s, w)
         else if \<not> is_recovery \<and> email_sent s then (Inr s, w)
         else if human_approval s = ''approved'' then
           (case send_email_alert E (email_body s) (email_subject s) w of
              (None, w1) \<Rightarrow>
                (let s1 = s\<lparr>action_taken := ''Email sent successfully '' @ check_mark\<rparr>
                 in (Inr (if is_recovery then s1\<lparr>recovery_email_sent := True\<rparr>
                          else s1\<lparr>email_sent := True\<rparr>), w1))
            | (Some e, w1) \<Rightarrow> (Inr (s\<lparr>action_taken := ''Failed to send email: '' @ e\<rparr>), w1))
         else (Inr (s\<lparr>action_taken := ''Email cancelled by user '' @ cross_mark\<rparr>), w))"

text \<open>The routing functions (lines 255-271).\<close>

definition should_alert :: "monitor_state \<Rightarrow> string" where
  "should_alert s = (if api_status s = ''healthy'' then ''healthy'' else ''needs_alert'')"

definition should_attempt_restart :: "monitor_state \<Rightarrow> string" where
  "should_attempt_restart s = ''attempt_restart''"

definition check_recovery :: "monitor_state \<Rightarrow> string" where
  "check_recovery s = (if recovery_status s = ''success'' then ''recovered'' else ''failed'')"

text \<open>
  \<^verbatim>\<open>create_monitoring_graph\<close> (lines 274-323): the function of every node, and its
  edges (\<open>None\<close> is \<^verbatim>\<open>END\<close>).
\<close>

fun node_fn :: "node \<Rightarrow> env \<Rightarrow> monitor_state \<Rightarrow> world \<Rightarrow> (exn + monitor_state) \<times> world" where
  "node_fn N_check_health = check_api_health"
| "node_fn N_analyze_alert = agent_analyze"
| "node_fn N_human_review_alert = human_review"
| "node_fn N_send_alert_email = send_email_action"
| "node_fn N_attempt_restart = attempt_restart"
| "node_fn N_analyze_recovery = agent_analyze"
| "node_fn N_human_review_recovery = human_review"
| "node_fn N_send_recovery_email = send_email_action"

fun next_node :: "node \<Rightarrow> monitor_state \<Rightarrow> node option" where
  "next_node N_check_health s =
     (if should_alert s = ''healthy'' then None else Some N_analyze_alert)"
| "next_node N_analyze_alert s = Some N_human_review_alert"
| "next_node N_human_review_alert s = Some N_send_alert_email"
| "next_node N_send_alert_email s = Some N_attempt_restart"
| "next_node N_attempt_restart s =
     (if check_recovery s = ''recovered'' then Some N_analyze_recovery else None)"
| "next_node N_analyze_recovery s = Some N_human_review_recovery"
| "next_node N_human_review_recovery s = Some N_send_recovery_email"
| "next_node N_send_recovery_email s = None"

fun rank :: "node \<Rightarrow> nat" where
  "rank N_check_health = 0"
| "rank N_analyze_alert = 1"
| "rank N_human_review_alert = 2"
| "rank N_send_alert_email = 3"
| "rank N_attempt_restart = 4"
| "rank N_analyze_recovery = 5"
| "rank N_human_review_recovery = 6"
| "rank N_send_recovery_email = 7"

lemma next_node_rank: "next_node n s = Some m \<Longrightarrow> rank n < rank m \<and> rank m \<le> 7"
  by (cases n) (auto split: if_splits)

text \<open>
  The compiled graph run from a node: the node's function is applied to the state, an
  exception leaves the run, and the edge is followed otherwise.
\<close>

function run_from :: "env \<Rightarrow> node \<Rightarrow> monitor_state \<Rightarrow> world \<Rightarrow> (exn + monitor_state) \<times> world" where
  "run_from E n s w =
     (case node_fn n E s (emit (ENode n s) w) of
        (Inl e, w1) \<Rightarrow> (Inl e, w1)
      | (Inr s1, w1) \<Rightarrow>
          (case next_node n s1 of
             None \<Rightarrow> (Inr s1, w1)
           | Some m \<Rightarrow> run_from E m s1 w1))"
  by pat_completeness auto
termination
  by (relation "measure (\<lambda>(E, n, s, w). 8 - rank n)") (auto dest!: next_node_rank)

declare run_from.simps [simp del]

text \<open>\<^verbatim>\<open>graph.invoke\<close>: the run from the entry point.\<close>

definition graph_invoke :: "env \<Rightarrow> monitor_state \<Rightarrow> world \<Rightarrow> (exn + monitor_state) \<times> world" where
  "graph_invoke E s w = run_from E N_check_health s w"

text \<open>The state a pass starts from (lines 342-357).\<close>

definition initial_state :: "string \<Rightarrow> service_config \<Rightarrow> monitor_state" where
  "initial_state name config =
     \<lparr>api_name = name, api_url = health_url config, api_port = port config,
      api_status = [], error_details = [], agent_analysis = [], email_subject = [],
      email_body = [], human_approval = [], action_taken = [], email_sent = False,
      restart_attempted = False, recovery_status = [], recovery_email_sent = False\<rparr>"

text \<open>
  One round of the \<^verbatim>\<open>for\<close> loop of \<^verbatim>\<open>run_monitoring\<close> (lines 341-366): a pass for
  every service, in the order of the configuration. \<^verbatim>\<open>graph.invoke\<close> is not inside a
  \<^verbatim>\<open>try\<close>.
\<close>

fun monitor_services :: "env \<Rightarrow> (string \<times> service_config) list \<Rightarrow> world \<Rightarrow> (exn + unit) \<times> world" where
  "monitor_services E [] w = (Inr (), w)"
| "monitor_services E ((name, config) # rest) w =
     (case graph_invoke E (initial_state name config) w of
        (Inl e, w1) \<Rightarrow> (Inl e, w1)
      | (Inr result, w1) \<Rightarrow> monitor_services E rest w1)"

text \<open>
  The \<^verbatim>\<open>while True\<close> loop of \<^verbatim>\<open>run_monitoring\<close> (lines 340-371), for a number of
  rounds: \<open>Some e\<close> when exception \<open>e\<close> ended the loop, \<open>None\<close> when it is still running
  after these rounds.
\<close>

fun monitoring_loop :: "env \<Rightarrow> int \<Rightarrow> nat \<Rightarrow> world \<Rightarrow> exn option \<times> world" where
  "monitoring_loop E check_interval 0 w = (None, w)"
| "monitoring_loop E check_interval (Suc k) w =
     (case monitor_services E (API_SERVICES E) w of
        (Inl e, w1) \<Rightarrow> (Some e, w1)
      | (Inr u, w1) \<Rightarrow>
          (case py_sleep (real_of_int check_interval) w1 of
             (Inl e, w2) \<Rightarrow> (Some e, w2)
           | (Inr u, w2) \<Rightarrow> monitoring_loop E check_interval k w2))"

text \<open>\<^verbatim>\<open>run_monitoring\<close> (lines 326-371). \<^verbatim>\<open>int(...)\<close> on line 336 is not inside a \<^verbatim>\<open>try\<close>.\<close>

definition run_monitoring :: "env \<Rightarrow> nat \<Rightarrow> world \<Rightarrow> exn option \<times> world" where
  "run_monitoring E rounds w =
     (case py_int (case MONITORING_CONFIG E ''check_interval'' of None \<Rightarrow> PInt 15 | Some v \<Rightarrow> v) of
        Inl e \<Rightarrow> (Some e, w)
      | Inr c \<Rightarrow> monitoring_loop E (if c < 1 then 1 else c) rounds w)"

section \<open>The shipped configuration\<close>

text \<open>
  \<^verbatim>\<open>API_SERVICES\<close> and \<^verbatim>\<open>MONITORING_CONFIG\<close> as config.py defines them, with
  surroundings in which no service answers, nothing listens on a port, every process
  starts, the language model answers in three segments and the mail server accepts.
\<close>

definition addition_api :: service_config where
  "addition_api = \<lparr>port = 8002, health_url = ''http://localhost:8002/health'',
     test_url = ''http://localhost:8002/addition?a=10&b=5'', app_module = ''addition_app:app''\<rparr>"

definition shipped_services :: "(string \<times> service_config) list" where
  "shipped_services =
     [(''Multiply API'',
       \<lparr>port = 8001, health_url = ''http://localhost:8001/health'',
        test_url = ''http://localhost:8001/multiply?a=5&b=3'', app_module = ''multiply_app:app''\<rparr>),
      (''Addition API'', addition_api),
      (''Division API'',
       \<lparr>port = 8003, health_url = ''http://localhost:8003/health'',
        test_url = ''http://localhost:8003/division?a=20&b=4'', app_module = ''division_app:app''\<rparr>)]"

definition shipped_monitoring :: "string \<rightharpoonup> pyval" where
  "shipped_monitoring =
     [''check_interval'' \<mapsto> PInt 15, ''restart_delay'' \<mapsto> PInt 30,
      ''max_restart_attempts'' \<mapsto> PInt 3, ''health_check_attempts'' \<mapsto> PInt 10,
      ''health_check_wait'' \<mapsto> PInt 3, ''health_check_timeout'' \<mapsto> PInt 5]"

definition shipped_env :: env where
  "shipped_env =
     \<lparr>API_SERVICES = shipped_services,
      MONITORING_CONFIG = shipped_monitoring,
      http_replies = (\<lambda>n. ConnectionError ''refused''),
      llm_replies = (\<lambda>n. Content ''ANALYSIS: down---SUBJECT: alert---EMAIL_BODY: Hi Team,''),
      smtp_replies = (\<lambda>n. None),
      find_replies = (\<lambda>n. Inr None),
      kill_replies = (\<lambda>n. None),
      popen_replies = (\<lambda>n. Inr 4242)\<rparr>"

definition fresh_world :: "string list \<Rightarrow> world" where
  "fresh_world lines =
     \<lparr>http_n = 0, llm_n = 0, smtp_n = 0, find_n = 0, kill_n = 0, popen_n = 0,
      stdin = lines, log = []\<rparr>"

text \<open>A response with status 200.\<close>

fun is_200 :: "http_result \<Rightarrow> bool" where
  "is_200 (Response status_code body) = (status_code = 200)"
| "is_200 (ConnectionError e) = False"
| "is_200 (RequestException e) = False"

text \<open>
  The configuration of the sanitization scenario, with a service that answers at once;
  surroundings in which the process on the port cannot be killed; surroundings in which
  the enumeration of the processes raises; surroundings in which the restarted service
  answers 503 once before it answers 200; and surroundings in which the new process
  cannot be started.
\<close>

definition sanitize_env :: env where
  "sanitize_env = shipped_env
     \<lparr>MONITORING_CONFIG := [''health_check_attempts'' \<mapsto> PInt 0,
        ''health_check_wait'' \<mapsto> PInt (- 5), ''health_check_timeout'' \<mapsto> PInt 0],
      http_replies := (\<lambda>n. Response 200 ''UP'')\<rparr>"

definition kill_fails_env :: env where
  "kill_fails_env = shipped_env
     \<lparr>http_replies := (\<lambda>n. Response 200 ''UP''),
      find_replies := (\<lambda>n. Inr (Some 77)),
      kill_replies := (\<lambda>n. Some ''access denied'')\<rparr>"

definition lookup_fails_env :: env where
  "lookup_fails_env = shipped_env\<lparr>find_replies := (\<lambda>n. Inl ''[Errno 13] Permission denied'')\<rparr>"

definition slow_start_env :: env where
  "slow_start_env = shipped_env
     \<lparr>http_replies := (\<lambda>n. if n = 0 then Response 503 ''starting'' else Response 200 ''UP'')\<rparr>"

definition launch_fails_env :: env where
  "launch_fails_env = shipped_env\<lparr>popen_replies := (\<lambda>n. Inl ''No such file or directory'')\<rparr>"

text \<open>
  A configuration whose numeric entries are \<^verbatim>\<open>None\<close> or a list; a language model
  that answers in two segments; and one that cannot be reached.
\<close>

definition none_delay_env :: env where
  "none_delay_env = shipped_env
     \<lparr>MONITORING_CONFIG := shipped_monitoring(''restart_delay'' \<mapsto> PNone,
        ''check_interval'' \<mapsto> PList [], ''health_check_attempts'' \<mapsto> PNone,
        ''health_check_wait'' \<mapsto> PList [], ''health_check_timeout'' \<mapsto> PList []) \<rparr>"

definition two_segment_env :: env where
  "two_segment_env = shipped_env\<lparr>llm_replies := (\<lambda>n. Content ''ANALYSIS: down---SUBJECT: alert'')\<rparr>"

definition llm_down_env :: env where
  "llm_down_env = shipped_env\<lparr>llm_replies := (\<lambda>n. LlmError ''Connection error.'')\<rparr>"

text \<open>
  Surroundings in which the service is down, comes back after the restart, and the
  language model answers the second request, for the recovery email, in two segments.
\<close>

definition recovery_draft_env :: env where
  "recovery_draft_env = shipped_env
     \<lparr>MONITORING_CONFIG := shipped_monitoring(''restart_delay'' \<mapsto> PInt 0),
      http_replies := (\<lambda>n. if n = 0 then ConnectionError ''refused'' else Response 200 ''UP''),
      llm_replies := (\<lambda>n. if n = 0
         then Content ''ANALYSIS: down---SUBJECT: alert---EMAIL_BODY: Hi Team,''
         else Content ''ANALYSIS: recovered---SUBJECT: back online'')\<rparr>"

text \<open>
  The trace of a pass, read off the log: the events a run added (\<open>new_events\<close>), the
  states its nodes started on (\<open>node_states\<close>) followed by the state it returned
  (\<open>pass_states\<close>), and how often a flag goes from false to true along a list of states
  (\<open>rises\<close>). \<open>is_restart\<close> is the start of the node \<^verbatim>\<open>attempt_restart\<close>.
  \<open>quiet k w w'\<close>: from \<open>w\<close> to \<open>w'\<close> the log grew by events that start no node, and
  at most \<open>k\<close> processes were started.
\<close>

fun is_node :: "event \<Rightarrow> bool" where
  "is_node (ENode n s) = True"
| "is_node e = False"

fun is_restart :: "event \<Rightarrow> bool" where
  "is_restart (ENode n s) = (n = N_attempt_restart)"
| "is_restart e = False"

fun node_states :: "event list \<Rightarrow> monitor_state list" where
  "node_states [] = []"
| "node_states (ENode n s # es) = s # node_states es"
| "node_states (e # es) = node_states es"

fun rises :: "('a \<Rightarrow> bool) \<Rightarrow> 'a list \<Rightarrow> nat" where
  "rises f [] = 0"
| "rises f [x] = 0"
| "rises f (x # y # ys) = (if \<not> f x \<and> f y then 1 else 0) + rises f (y # ys)"

definition new_events :: "world \<Rightarrow> world \<Rightarrow> event list" where
  "new_events w w' = drop (length (log w)) (log w')"

definition final_state :: "exn + monitor_state \<Rightarrow> monitor_state list" where
  "final_state r = (case r of Inl e \<Rightarrow> [] | Inr s \<Rightarrow> [s])"

definition pass_states :: "env \<Rightarrow> monitor_state \<Rightarrow> world \<Rightarrow> monitor_state list" where
  "pass_states E s w =
     (case graph_invoke E s w of (r, w') \<Rightarrow> node_states (new_events w w') @ final_state r)"

definition quiet :: "nat \<Rightarrow> world \<Rightarrow> world \<Rightarrow> bool" where
  "quiet k w w' \<longleftrightarrow>
     (\<exists>evs. log w' = log w @ evs \<and> (\<forall>e \<in> set evs. \<not> is_node e)) \<and> popen_n w' \<le> popen_n w + k"

section \<open>The restart manager\<close>

text \<open>
  C10. For a name that is not a key of \<^verbatim>\<open>API_SERVICES\<close>, \<^verbatim>\<open>restart_specific_api\<close>
  returns \<^verbatim>\<open>False\<close>, \<^verbatim>\<open>start_specific_api\<close> returns no process and
  \<^verbatim>\<open>verify_api_health\<close> returns \<^verbatim>\<open>False\<close>, each leaving the world as it was: no
  process is looked for or killed, none is started, no health endpoint is asked.
\<close>

theorem unknown_api_no_effect:
  assumes "map_of (API_SERVICES E) name = None"
  shows "restart_specific_api E name w = (Inr False, w)
       \<and> start_specific_api E name w = (None, w)
       \<and> verify_api_health E name w = (False, w)"
  using assms by (simp add: restart_specific_api_def start_specific_api_def verify_api_health_def)

theorem unknown_api_no_effect_witness:
  "map_of (API_SERVICES shipped_env) ''Modulo API'' = None
   \<and> restart_specific_api shipped_env ''Modulo API'' (fresh_world []) = (Inr False, fresh_world [])
   \<and> start_specific_api shipped_env ''Modulo API'' (fresh_world []) = (None, fresh_world [])
   \<and> verify_api_health shipped_env ''Modulo API'' (fresh_world []) = (False, fresh_world [])"
proof -
  have h: "map_of (API_SERVICES shipped_env) ''Modulo API'' = None"
    by (simp add: shipped_env_def shipped_services_def)
  show ?thesis using h unknown_api_no_effect [OF h, of "fresh_world []"] by simp
qed

subsection \<open>What the loop of the verification reads and writes\<close>

lemma emit_fields [simp]:
  "http_n (emit e w) = http_n w" "llm_n (emit e w) = llm_n w" "smtp_n (emit e w) = smtp_n w"
  "find_n (emit e w) = find_n w" "kill_n (emit e w) = kill_n w" "popen_n (emit e w) = popen_n w"
  "stdin (emit e w) = stdin w" "log (emit e w) = log w @ [e]"
  by (simp_all add: emit_def)

lemma py_sleep_fields [simp]:
  "http_n (snd (py_sleep x w)) = http_n w" "llm_n (snd (py_sleep x w)) = llm_n w"
  "smtp_n (snd (py_sleep x w)) = smtp_n w" "find_n (snd (py_sleep x w)) = find_n w"
  "kill_n (snd (py_sleep x w)) = kill_n w" "popen_n (snd (py_sleep x w)) = popen_n w"
  "stdin (snd (py_sleep x w)) = stdin w"
  by (simp_all add: py_sleep_def)

lemma verify_loop_polls:
  "verify_loop E url wt to k w = (b, w') \<Longrightarrow>
     http_n w \<le> http_n w' \<and> http_n w' \<le> http_n w + k
     \<and> (b \<longrightarrow> http_n w < http_n w' \<and> is_200 (http_replies E (http_n w' - 1)))
     \<and> (\<forall>i. http_n w \<le> i \<and> i < http_n w' \<and> is_200 (http_replies E i) \<longrightarrow> b \<and> Suc i = http_n w')"
proof (induction k arbitrary: w)
  case 0
  then show ?case by auto
next
  case (Suc k)
  obtain r w1 where sl: "py_sleep wt w = (r, w1)" by (cases "py_sleep wt w")
  then have n1: "http_n w1 = http_n w" using py_sleep_fields(1) [of wt w] by simp
  show ?case
  proof (cases r)
    case (Inl e)
    with Suc.prems sl have "verify_loop E url wt to k w1 = (b, w')" by simp
    from Suc.IH [OF this] n1 show ?thesis by simp
  next
    case (Inr u)
    let ?w2 = "emit (EGet url to) (w1\<lparr>http_n := Suc (http_n w1)\<rparr>)"
    have n2: "http_n ?w2 = Suc (http_n w)" using n1 by simp
    show ?thesis
    proof (cases "is_200 (http_replies E (http_n w))")
      case True
      then have "b = True \<and> w' = ?w2"
        using Suc.prems sl Inr n1
        by (cases "http_replies E (http_n w)") (auto simp: requests_get_def)
      then have "b" and w': "http_n w' = Suc (http_n w)" using n2 by simp_all
      have "\<And>i. http_n w \<le> i \<and> i < http_n w' \<Longrightarrow> i = http_n w" using w' by arith
      then show ?thesis using w' True \<open>b\<close> by auto
    next
      case False
      then have "verify_loop E url wt to k ?w2 = (b, w')"
        using Suc.prems sl Inr n1
        by (cases "http_replies E (http_n w)") (auto simp: requests_get_def)
      from Suc.IH [OF this] n2 have
        a: "Suc (http_n w) \<le> http_n w'" "http_n w' \<le> Suc (http_n w) + k"
        and b: "b \<longrightarrow> is_200 (http_replies E (http_n w' - 1))"
        and c: "\<And>i. Suc (http_n w) \<le> i \<Longrightarrow> i < http_n w' \<Longrightarrow> is_200 (http_replies E i) \<Longrightarrow> b \<and> Suc i = http_n w'"
        by simp_all
      have "b \<and> Suc i = http_n w'" if "http_n w \<le> i" "i < http_n w'" "is_200 (http_replies E i)" for i
      proof -
        from that False have "i \<noteq> http_n w" by auto
        with that have "Suc (http_n w) \<le> i" by arith
        from c [OF this that(2,3)] show ?thesis .
      qed
      with a b show ?thesis by auto
    qed
  qed
qed


lemma verify_loop_frame:
  assumes "http_replies E' = http_replies E"
  shows "http_n w2 = http_n w1 \<Longrightarrow>
     \<exists>evs. log (snd (verify_loop E url wt to k w1)) = log w1 @ evs
          \<and> log (snd (verify_loop E' url wt to k w2)) = log w2 @ evs
          \<and> fst (verify_loop E' url wt to k w2) = fst (verify_loop E url wt to k w1)
          \<and> http_n (snd (verify_loop E' url wt to k w2)) = http_n (snd (verify_loop E url wt to k w1))"
proof (induction k arbitrary: w1 w2)
  case 0
  then show ?case by simp
next
  case (Suc k)
  show ?case
  proof (cases "wt < 0 \<or> 2 ^ 63 \<le> wt * 10 ^ 9")
    case True
    then have "verify_loop E url wt to (Suc k) w1 = verify_loop E url wt to k w1"
      and "verify_loop E' url wt to (Suc k) w2 = verify_loop E' url wt to k w2"
      by (auto simp: py_sleep_def)
    with Suc.IH [OF Suc.prems] show ?thesis by simp
  next
    case False
    let ?v1 = "emit (EGet url to) ((emit (ESleep wt) w1)\<lparr>http_n := Suc (http_n w1)\<rparr>)"
    let ?v2 = "emit (EGet url to) ((emit (ESleep wt) w2)\<lparr>http_n := Suc (http_n w2)\<rparr>)"
    have n: "http_n ?v2 = http_n ?v1" using Suc.prems by simp
    have l: "log ?v1 = log w1 @ [ESleep wt, EGet url to]" "log ?v2 = log w2 @ [ESleep wt, EGet url to]"
      by simp_all
    show ?thesis
    proof (cases "is_200 (http_replies E (http_n w1))")
      case True
      then have "verify_loop E url wt to (Suc k) w1 = (True, ?v1)"
        and "verify_loop E' url wt to (Suc k) w2 = (True, ?v2)"
        using False assms Suc.prems
        by (cases "http_replies E (http_n w1)"; simp add: py_sleep_def requests_get_def)+
      with l n show ?thesis by simp
    next
      case no: False
      then have "verify_loop E url wt to (Suc k) w1 = verify_loop E url wt to k ?v1"
        and "verify_loop E' url wt to (Suc k) w2 = verify_loop E' url wt to k ?v2"
        using False assms Suc.prems
        by (cases "http_replies E (http_n w1)"; simp add: py_sleep_def requests_get_def)+
      moreover from Suc.IH [OF n] obtain evs where
        "log (snd (verify_loop E url wt to k ?v1)) = log ?v1 @ evs"
        "log (snd (verify_loop E' url wt to k ?v2)) = log ?v2 @ evs"
        "fst (verify_loop E' url wt to k ?v2) = fst (verify_loop E url wt to k ?v1)"
        "http_n (snd (verify_loop E' url wt to k ?v2)) = http_n (snd (verify_loop E url wt to k ?v1))"
        by blast
      ultimately show ?thesis using l by simp
    qed
  qed
qed

lemma health_check_params_cong:
  "MONITORING_CONFIG E' = MONITORING_CONFIG E \<Longrightarrow> health_check_params E' = health_check_params E"
  by (simp add: health_check_params_def merged_monitoring_config_def)

lemma verify_api_health_frame:
  assumes "http_replies E' = http_replies E" "MONITORING_CONFIG E' = MONITORING_CONFIG E"
    "API_SERVICES E' = API_SERVICES E" "http_n w2 = http_n w1"
  shows "\<exists>evs. log (snd (verify_api_health E name w1)) = log w1 @ evs
          \<and> log (snd (verify_api_health E' name w2)) = log w2 @ evs
          \<and> fst (verify_api_health E' name w2) = fst (verify_api_health E name w1)
          \<and> http_n (snd (verify_api_health E' name w2)) = http_n (snd (verify_api_health E name w1))"
proof (cases "map_of (API_SERVICES E) name")
  case None
  then show ?thesis using assms by (simp add: verify_api_health_def)
next
  case (Some config)
  obtain m wt to where p: "health_check_params E = (m, wt, to)"
    by (cases "health_check_params E") auto
  then have p': "health_check_params E' = (m, wt, to)"
    using health_check_params_cong [OF assms(2)] by simp
  from verify_loop_frame [OF assms(1) assms(4), of "health_url config" wt to "nat m"]
  show ?thesis using Some p p' assms(3) by (simp add: verify_api_health_def)
qed


lemma health_check_params_floor: "1 \<le> fst (health_check_params E)"
  by (simp add: health_check_params_def Let_def)

lemma health_check_params_range:
  "0 \<le> fst (snd (health_check_params E)) \<and> 0 < snd (snd (health_check_params E))"
  by (simp add: health_check_params_def Let_def)

lemma verify_loop_numeral:
  "verify_loop E url wait_time timeout (numeral k) w =
     (case py_sleep wait_time w of
        (Inl e, w1) \<Rightarrow> verify_loop E url wait_time timeout (pred_numeral k) w1
      | (Inr u, w1) \<Rightarrow>
          (case requests_get E url timeout w1 of
             (Response status_code body, w2) \<Rightarrow>
               if status_code = 200 then (True, w2)
               else verify_loop E url wait_time timeout (pred_numeral k) w2
           | (ConnectionError e, w2) \<Rightarrow> verify_loop E url wait_time timeout (pred_numeral k) w2
           | (RequestException e, w2) \<Rightarrow> verify_loop E url wait_time timeout (pred_numeral k) w2))"
  by (simp add: numeral_eq_Suc)

lemma verify_loop_exact:
  assumes ok: "0 \<le> wt" "wt * 10 ^ 9 < 2 ^ 63"
  shows "verify_loop E url wt to k w = (b, w') \<Longrightarrow>
     (\<forall>i<k. is_200 (http_replies E (http_n w + i))
            \<and> (\<forall>j<i. \<not> is_200 (http_replies E (http_n w + j)))
          \<longrightarrow> b \<and> http_n w' = Suc (http_n w + i))
     \<and> ((\<forall>i<k. \<not> is_200 (http_replies E (http_n w + i))) \<longrightarrow> \<not> b \<and> http_n w' = http_n w + k)
     \<and> w' = w\<lparr>http_n := http_n w',
              log := log w @ concat (replicate (http_n w' - http_n w) [ESleep wt, EGet url to])\<rparr>"
proof (induction k arbitrary: w)
  case 0
  then show ?case by simp
next
  case (Suc k)
  let ?w2 = "emit (EGet url to) ((emit (ESleep wt) w)\<lparr>http_n := Suc (http_n w)\<rparr>)"
  have sl: "py_sleep wt w = (Inr (), emit (ESleep wt) w)"
    using ok by (simp add: py_sleep_def)
  have n2: "http_n ?w2 = Suc (http_n w)" by simp
  have w2: "?w2 = w\<lparr>http_n := Suc (http_n w), log := log w @ [ESleep wt, EGet url to]\<rparr>"
    by (simp add: emit_def)
  show ?case
  proof (cases "is_200 (http_replies E (http_n w))")
    case True
    then have r: "b" "w' = ?w2"
      using Suc.prems sl
      by (cases "http_replies E (http_n w)"; simp add: requests_get_def)+
    have first: "i = 0" if "\<forall>j<i. \<not> is_200 (http_replies E (http_n w + j))" for i
    proof (rule ccontr)
      assume "i \<noteq> 0"
      then have "0 < i" by simp
      with that have "\<not> is_200 (http_replies E (http_n w + 0))" by blast
      with True show False by simp
    qed
    have a: "\<forall>i<Suc k. is_200 (http_replies E (http_n w + i))
            \<and> (\<forall>j<i. \<not> is_200 (http_replies E (http_n w + j)))
          \<longrightarrow> b \<and> http_n w' = Suc (http_n w + i)"
      using first r n2 by auto
    have c: "(\<forall>i<Suc k. \<not> is_200 (http_replies E (http_n w + i))) \<longrightarrow> \<not> b \<and> http_n w' = http_n w + Suc k"
      using True by auto
    have d: "w' = w\<lparr>http_n := http_n w',
              log := log w @ concat (replicate (http_n w' - http_n w) [ESleep wt, EGet url to])\<rparr>"
      using r(2) by (simp add: emit_def)
    from a c d show ?thesis by blast
  next
    case False
    then have rec: "verify_loop E url wt to k ?w2 = (b, w')"
      using Suc.prems sl
      by (cases "http_replies E (http_n w)"; simp add: requests_get_def)
    from verify_loop_polls [OF rec] n2 have ge: "Suc (http_n w) \<le> http_n w'" by simp
    from Suc.IH [OF rec] have
      ih1: "\<And>i. i < k \<Longrightarrow> is_200 (http_replies E (Suc (http_n w) + i))
            \<Longrightarrow> (\<forall>j<i. \<not> is_200 (http_replies E (Suc (http_n w) + j)))
            \<Longrightarrow> b \<and> http_n w' = Suc (Suc (http_n w) + i)"
      and ih2: "(\<forall>i<k. \<not> is_200 (http_replies E (Suc (http_n w) + i)))
            \<Longrightarrow> \<not> b \<and> http_n w' = Suc (http_n w) + k"
      and ih3: "w' = ?w2\<lparr>http_n := http_n w',
              log := log ?w2 @ concat (replicate (http_n w' - Suc (http_n w)) [ESleep wt, EGet url to])\<rparr>"
      unfolding n2 by blast+
    have a: "b \<and> http_n w' = Suc (http_n w + i)"
      if "i < Suc k" "is_200 (http_replies E (http_n w + i))"
        "\<forall>j<i. \<not> is_200 (http_replies E (http_n w + j))" for i
    proof -
      from that(2) False have "i \<noteq> 0" by (cases i) auto
      then obtain i' where i': "i = Suc i'" by (cases i) auto
      have "\<forall>j<i'. \<not> is_200 (http_replies E (Suc (http_n w) + j))"
      proof (intro allI impI)
        fix j assume "j < i'"
        then have "Suc j < i" using i' by simp
        with that(3) have "\<not> is_200 (http_replies E (http_n w + Suc j))" by blast
        then show "\<not> is_200 (http_replies E (Suc (http_n w) + j))" by simp
      qed
      with ih1 [of i'] that(1,2) i' show ?thesis by simp
    qed
    have c: "\<not> b \<and> http_n w' = http_n w + Suc k"
      if all: "\<forall>i<Suc k. \<not> is_200 (http_replies E (http_n w + i))"
    proof -
      have "\<forall>i<k. \<not> is_200 (http_replies E (Suc (http_n w) + i))"
      proof (intro allI impI)
        fix i assume "i < k"
        then have "Suc i < Suc k" by simp
        with all have "\<not> is_200 (http_replies E (http_n w + Suc i))" by blast
        then show "\<not> is_200 (http_replies E (Suc (http_n w) + i))" by simp
      qed
      with ih2 show ?thesis by simp
    qed
    have cnt: "http_n w' - http_n w = Suc (http_n w' - Suc (http_n w))" using ge by arith
    have d: "w' = w\<lparr>http_n := http_n w',
              log := log w @ concat (replicate (http_n w' - http_n w) [ESleep wt, EGet url to])\<rparr>"
      unfolding cnt by (subst ih3) (simp add: emit_def)
    from a c d show ?thesis by blast
  qed
qed

text \<open>
  C4. A configured \<^verbatim>\<open>health_check_attempts\<close> of 0 becomes 1, a
  \<^verbatim>\<open>health_check_wait\<close> of -5 becomes 0 and a \<^verbatim>\<open>health_check_timeout\<close> of 0
  becomes the default 5; the three values used are always at least 1, not negative, and
  positive. The verification asks the health endpoint at most \<open>max_attempts\<close> times; it
  returns \<^verbatim>\<open>True\<close> only on a response with status 200, and a response with status
  200 is the last one asked for and makes it return \<^verbatim>\<open>True\<close>. For a wait under
  \<open>2 ^ 62\<close> nanoseconds it does exactly this: when the first answer with status 200 is
  the one to attempt \<open>i + 1\<close> of the \<open>max_attempts\<close> attempts, it returns \<^verbatim>\<open>True\<close>
  after \<open>i + 1\<close> requests; when none of the \<open>max_attempts\<close> answers has status 200, it
  returns \<^verbatim>\<open>False\<close> after \<open>max_attempts\<close> requests; and every attempt is a sleep of
  \<open>wait_time\<close> and then a GET of the health URL with the timeout, nothing else. With the
  values 0, -5 and 0 configured this is one sleep of 0 and one GET with timeout 5, and
  the result is whether its answer has status 200.
\<close>

theorem verify_api_health_sanitized:
  assumes known: "map_of (API_SERVICES E) name = Some config"
    and res: "verify_api_health E name w = (b, w')"
  shows "(MONITORING_CONFIG E ''health_check_attempts'' = Some (PInt 0)
            \<longrightarrow> fst (health_check_params E) = 1)
       \<and> (MONITORING_CONFIG E ''health_check_wait'' = Some (PInt (- 5))
            \<longrightarrow> fst (snd (health_check_params E)) = 0)
       \<and> (MONITORING_CONFIG E ''health_check_timeout'' = Some (PInt 0)
            \<longrightarrow> snd (snd (health_check_params E)) = 5)
       \<and> 1 \<le> fst (health_check_params E)
       \<and> http_n w \<le> http_n w'
       \<and> http_n w' - http_n w \<le> nat (fst (health_check_params E))
       \<and> (b \<longrightarrow> http_n w < http_n w' \<and> is_200 (http_replies E (http_n w' - 1)))
       \<and> (\<forall>i. http_n w \<le> i \<and> i < http_n w' \<and> is_200 (http_replies E i)
              \<longrightarrow> b \<and> Suc i = http_n w')
       \<and> 0 \<le> fst (snd (health_check_params E))
       \<and> 0 < snd (snd (health_check_params E))
       \<and> (fst (snd (health_check_params E)) * 10 ^ 9 < 2 ^ 62 \<longrightarrow>
            (\<forall>i < nat (fst (health_check_params E)).
                is_200 (http_replies E (http_n w + i))
                \<and> (\<forall>j<i. \<not> is_200 (http_replies E (http_n w + j)))
              \<longrightarrow> b \<and> http_n w' = Suc (http_n w + i))
          \<and> ((\<forall>i < nat (fst (health_check_params E)). \<not> is_200 (http_replies E (http_n w + i)))
              \<longrightarrow> \<not> b \<and> http_n w' = http_n w + nat (fst (health_check_params E)))
          \<and> w' = w\<lparr>http_n := http_n w',
                   log := log w @ concat (replicate (http_n w' - http_n w)
                            [ESleep (fst (snd (health_check_params E))),
                             EGet (health_url config) (snd (snd (health_check_params E)))])\<rparr>)
       \<and> (MONITORING_CONFIG E ''health_check_attempts'' = Some (PInt 0)
          \<and> MONITORING_CONFIG E ''health_check_wait'' = Some (PInt (- 5))
          \<and> MONITORING_CONFIG E ''health_check_timeout'' = Some (PInt 0)
          \<longrightarrow> b = is_200 (http_replies E (http_n w))
              \<and> w' = w\<lparr>http_n := Suc (http_n w),
                       log := log w @ [ESleep 0, EGet (health_url config) 5]\<rparr>)"
proof -
  obtain m wt to where p: "health_check_params E = (m, wt, to)"
    by (cases "health_check_params E") auto
  have a0: "MONITORING_CONFIG E ''health_check_attempts'' = Some (PInt 0)
            \<longrightarrow> fst (health_check_params E) = 1"
    by (simp add: health_check_params_def merged_monitoring_config_def dict_get_def to_int_def
        Let_def)
  have b0: "MONITORING_CONFIG E ''health_check_wait'' = Some (PInt (- 5))
            \<longrightarrow> fst (snd (health_check_params E)) = 0"
    by (simp add: health_check_params_def merged_monitoring_config_def dict_get_def to_float_def
        round_double_def Let_def)
  have c0: "MONITORING_CONFIG E ''health_check_timeout'' = Some (PInt 0)
            \<longrightarrow> snd (snd (health_check_params E)) = 5"
    by (simp add: health_check_params_def merged_monitoring_config_def dict_get_def to_float_def
        round_double_def Let_def)
  have a: "MONITORING_CONFIG E ''health_check_attempts'' = Some (PInt 0) \<longrightarrow> m = 1"
    and b: "MONITORING_CONFIG E ''health_check_wait'' = Some (PInt (- 5)) \<longrightarrow> wt = 0"
    and c: "MONITORING_CONFIG E ''health_check_timeout'' = Some (PInt 0) \<longrightarrow> to = 5"
    using a0 b0 c0 p by simp_all
  from known res p have run: "verify_loop E (health_url config) wt to (nat m) w = (b, w')"
    by (simp add: verify_api_health_def)
  from verify_loop_polls [OF this] have
    d1: "http_n w \<le> http_n w'" and d2: "http_n w' \<le> http_n w + nat m"
    and d3: "b \<longrightarrow> http_n w < http_n w' \<and> is_200 (http_replies E (http_n w' - 1))"
    and d4: "\<forall>i. http_n w \<le> i \<and> i < http_n w' \<and> is_200 (http_replies E i)
               \<longrightarrow> b \<and> Suc i = http_n w'"
    by blast+
  from d2 have e: "http_n w' - http_n w \<le> nat m" by simp
  from health_check_params_floor [of E] p have fl: "1 \<le> m" by simp
  from health_check_params_range [of E] p have rg1: "0 \<le> wt" and rg2: "0 < to" by simp_all
  have f: "wt * 10 ^ 9 < 2 ^ 62 \<longrightarrow>
            (\<forall>i < nat m. is_200 (http_replies E (http_n w + i))
                \<and> (\<forall>j<i. \<not> is_200 (http_replies E (http_n w + j)))
              \<longrightarrow> b \<and> http_n w' = Suc (http_n w + i))
          \<and> ((\<forall>i < nat m. \<not> is_200 (http_replies E (http_n w + i)))
              \<longrightarrow> \<not> b \<and> http_n w' = http_n w + nat m)
          \<and> w' = w\<lparr>http_n := http_n w',
                   log := log w @ concat (replicate (http_n w' - http_n w)
                            [ESleep wt, EGet (health_url config) to])\<rparr>"
  proof
    assume small: "wt * 10 ^ 9 < 2 ^ 62"
    have "(2::real) ^ 62 \<le> 2 ^ 63" by simp
    with small have "wt * 10 ^ 9 < 2 ^ 63" by linarith
    from verify_loop_exact [OF rg1 this run]
    show "(\<forall>i < nat m. is_200 (http_replies E (http_n w + i))
                \<and> (\<forall>j<i. \<not> is_200 (http_replies E (http_n w + j)))
              \<longrightarrow> b \<and> http_n w' = Suc (http_n w + i))
          \<and> ((\<forall>i < nat m. \<not> is_200 (http_replies E (http_n w + i)))
              \<longrightarrow> \<not> b \<and> http_n w' = http_n w + nat m)
          \<and> w' = w\<lparr>http_n := http_n w',
                   log := log w @ concat (replicate (http_n w' - http_n w)
                            [ESleep wt, EGet (health_url config) to])\<rparr>" .
  qed
  have g: "MONITORING_CONFIG E ''health_check_attempts'' = Some (PInt 0)
          \<and> MONITORING_CONFIG E ''health_check_wait'' = Some (PInt (- 5))
          \<and> MONITORING_CONFIG E ''health_check_timeout'' = Some (PInt 0)
          \<longrightarrow> b = is_200 (http_replies E (http_n w))
              \<and> w' = w\<lparr>http_n := Suc (http_n w),
                       log := log w @ [ESleep 0, EGet (health_url config) 5]\<rparr>"
  proof
    assume cfg: "MONITORING_CONFIG E ''health_check_attempts'' = Some (PInt 0)
          \<and> MONITORING_CONFIG E ''health_check_wait'' = Some (PInt (- 5))
          \<and> MONITORING_CONFIG E ''health_check_timeout'' = Some (PInt 0)"
    with a b c have v: "m = 1" "wt = 0" "to = 5" by simp_all
    let ?w2 = "emit (EGet (health_url config) 5) ((emit (ESleep 0) w)\<lparr>http_n := Suc (http_n w)\<rparr>)"
    have sl: "py_sleep 0 w = (Inr (), emit (ESleep 0) w)" by (simp add: py_sleep_def)
    have "verify_loop E (health_url config) 0 5 (Suc 0) w =
        (is_200 (http_replies E (http_n w)), ?w2)"
      by (cases "http_replies E (http_n w)") (simp_all add: sl requests_get_def)
    with run v have "b = is_200 (http_replies E (http_n w))" "w' = ?w2" by simp_all
    then show "b = is_200 (http_replies E (http_n w))
              \<and> w' = w\<lparr>http_n := Suc (http_n w),
                       log := log w @ [ESleep 0, EGet (health_url config) 5]\<rparr>"
      by (simp add: emit_def)
  qed
  show ?thesis
    unfolding p fst_conv snd_conv
    by (intro conjI) (fact a b c fl d1 e d3 d4 rg1 rg2 f g)+
qed

theorem verify_api_health_sanitized_witness:
  "map_of (API_SERVICES sanitize_env) ''Addition API'' = Some addition_api
   \<and> verify_api_health sanitize_env ''Addition API'' (fresh_world []) =
       (True, (fresh_world [])\<lparr>http_n := 1,
                log := [ESleep 0, EGet ''http://localhost:8002/health'' 5]\<rparr>)
   \<and> health_check_params sanitize_env = (1, 0, 5)
   \<and> map_of (API_SERVICES slow_start_env) ''Addition API'' = Some addition_api
   \<and> health_check_params slow_start_env = (10, 3, 5)
   \<and> \<not> is_200 (http_replies slow_start_env 0) \<and> is_200 (http_replies slow_start_env 1)
   \<and> fst (verify_api_health slow_start_env ''Addition API'' (fresh_world []))
   \<and> http_n (snd (verify_api_health slow_start_env ''Addition API'' (fresh_world []))) = 2"
proof -
  let ?v = "verify_api_health sanitize_env ''Addition API'' (fresh_world [])"
  let ?u = "verify_api_health slow_start_env ''Addition API'' (fresh_world [])"
  have k1: "map_of (API_SERVICES sanitize_env) ''Addition API'' = Some addition_api"
    by (simp add: sanitize_env_def shipped_env_def shipped_services_def)
  have k2: "map_of (API_SERVICES slow_start_env) ''Addition API'' = Some addition_api"
    by (simp add: slow_start_env_def shipped_env_def shipped_services_def)
  have cfg: "MONITORING_CONFIG sanitize_env ''health_check_attempts'' = Some (PInt 0)"
    "MONITORING_CONFIG sanitize_env ''health_check_wait'' = Some (PInt (- 5))"
    "MONITORING_CONFIG sanitize_env ''health_check_timeout'' = Some (PInt 0)"
    by (simp_all add: sanitize_env_def)
  have r1: "http_replies sanitize_env (http_n (fresh_world [])) = Response 200 ''UP''"
    by (simp add: sanitize_env_def)
  have u: "health_url addition_api = ''http://localhost:8002/health''"
    by (simp add: addition_api_def)
  note t1 = verify_api_health_sanitized [OF k1 surjective_pairing [of ?v]]
  note s1 = t1 [THEN conjunct1]
  note s2 = t1 [THEN conjunct2, THEN conjunct1]
  note s3 = t1 [THEN conjunct2, THEN conjunct2, THEN conjunct1]
  note s4 = t1 [THEN conjunct2, THEN conjunct2, THEN conjunct2, THEN conjunct2, THEN conjunct2, THEN conjunct2, THEN conjunct2, THEN conjunct2, THEN conjunct2, THEN conjunct2, THEN conjunct2]
  from s1 s2 s3 cfg have p1: "health_check_params sanitize_env = (1, 0, 5)"
    by (simp add: prod_eq_iff)
  from s4 cfg r1 u have "fst ?v = True"
    and "snd ?v = (fresh_world [])\<lparr>http_n := 1,
                log := [ESleep 0, EGet ''http://localhost:8002/health'' 5]\<rparr>"
    by (simp_all add: fresh_world_def)
  then have v: "?v = (True, (fresh_world [])\<lparr>http_n := 1,
                log := [ESleep 0, EGet ''http://localhost:8002/health'' 5]\<rparr>)"
    by (simp add: prod_eq_iff)
  have p2: "health_check_params slow_start_env = (10, 3, 5)"
    by (simp add: health_check_params_def merged_monitoring_config_def dict_get_def
        to_int_def to_float_def round_double_def slow_start_env_def shipped_env_def
        shipped_monitoring_def)
  have r2: "\<not> is_200 (http_replies slow_start_env 0)" "is_200 (http_replies slow_start_env 1)"
    by (simp_all add: slow_start_env_def)
  note t2 = verify_api_health_sanitized [OF k2 surjective_pairing [of ?u]]
  have small: "fst (snd (health_check_params slow_start_env)) * 10 ^ 9 < (2::real) ^ 62"
    by (simp add: p2)
  note f2 = t2 [THEN conjunct2, THEN conjunct2, THEN conjunct2, THEN conjunct2, THEN conjunct2, THEN conjunct2, THEN conjunct2, THEN conjunct2, THEN conjunct2, THEN conjunct2, THEN conjunct1, THEN mp, OF small, THEN conjunct1]
  from f2 have "1 < nat (fst (health_check_params slow_start_env)) \<longrightarrow>
        is_200 (http_replies slow_start_env (http_n (fresh_world []) + 1))
        \<and> (\<forall>j<1. \<not> is_200 (http_replies slow_start_env (http_n (fresh_world []) + j)))
      \<longrightarrow> fst ?u \<and> http_n (snd ?u) = Suc (http_n (fresh_world []) + 1)"
    by (rule spec)
  then have "is_200 (http_replies slow_start_env (0 + 1))
        \<and> (\<forall>j<1. \<not> is_200 (http_replies slow_start_env (0 + j)))
      \<longrightarrow> fst ?u \<and> http_n (snd ?u) = Suc (0 + 1)"
    by (simp add: p2 fresh_world_def)
  with r2 have "fst ?u" "http_n (snd ?u) = 2" by simp_all
  with k1 k2 v p1 p2 r2 show ?thesis by simp
qed

subsection \<open>The three steps of a restart\<close>

lemma kill_api_on_port_fields [simp]:
  "http_n (snd (kill_api_on_port E p w)) = http_n w"
  "popen_n (snd (kill_api_on_port E p w)) = popen_n w"
  by (simp_all add: kill_api_on_port_def find_process_on_port_def py_sleep_def Let_def
      split: option.splits sum.splits)

lemma start_specific_api_fields:
  assumes "map_of (API_SERVICES E) name = Some config"
  shows "http_n (snd (start_specific_api E name w)) = http_n w"
    and "popen_n (snd (start_specific_api E name w)) = Suc (popen_n w)"
    and "fst (start_specific_api E name w) =
           (case popen_replies E (popen_n w) of Inl e \<Rightarrow> None | Inr p \<Rightarrow> Some p)"
  using assms by (simp_all add: start_specific_api_def Let_def split: sum.splits)

lemma verify_api_health_popen [simp]:
  "popen_n (snd (verify_api_health E name w)) = popen_n w"
proof -
  have "popen_n (snd (verify_loop E url wt to k v)) = popen_n v" for url wt to k v
    by (induction k arbitrary: v)
       (auto simp: py_sleep_def requests_get_def split: http_result.splits)
  then show ?thesis
    by (simp add: verify_api_health_def split: option.splits prod.splits)
qed

text \<open>
  C3 as the code has it. For a configured service, once the lookup of the process on the
  port has returned, the restart reaches the launch, whether a process was found or not
  and whether killing it succeeded or not: a failed kill is a warning only. When
  \<^verbatim>\<open>Popen\<close> raises, the restart returns \<^verbatim>\<open>False\<close> and the health endpoint is not
  asked; when the process starts, the restart returns what the verification returns, and
  asks the endpoint as often. An exception of the lookup that \<^verbatim>\<open>find_process_on_port\<close>
  does not catch leaves the restart before the launch.
\<close>

theorem restart_result:
  assumes known: "map_of (API_SERVICES E) name = Some config"
  shows "case find_replies E (find_n w) of
           Inl x \<Rightarrow> restart_specific_api E name w =
                      (Inl (ProcessError x), w\<lparr>find_n := Suc (find_n w)\<rparr>)
         | Inr found \<Rightarrow>
             popen_n (snd (restart_specific_api E name w)) = Suc (popen_n w)
             \<and> (case popen_replies E (popen_n w) of
                  Inl e \<Rightarrow> fst (restart_specific_api E name w) = Inr False
                           \<and> http_n (snd (restart_specific_api E name w)) = http_n w
                | Inr p \<Rightarrow> fst (restart_specific_api E name w) =
                             Inr (fst (verify_api_health E name w))
                           \<and> http_n (snd (restart_specific_api E name w)) =
                               http_n (snd (verify_api_health E name w)))"
proof (cases "find_replies E (find_n w)")
  case (Inl x)
  then show ?thesis
    using known
    by (simp add: restart_specific_api_def kill_api_on_port_def find_process_on_port_def)
next
  case (Inr found)
  obtain r w1 where k: "kill_api_on_port E (port config) w = (r, w1)"
    by (cases "kill_api_on_port E (port config) w")
  then have w1: "http_n w1 = http_n w" "popen_n w1 = popen_n w"
    using kill_api_on_port_fields [of E "port config" w] by simp_all
  from k Inr obtain killed where r: "r = Inr killed"
    by (auto simp: kill_api_on_port_def find_process_on_port_def py_sleep_def Let_def
        split: option.splits)
  obtain proc w2 where s: "start_specific_api E name w1 = (proc, w2)"
    by (cases "start_specific_api E name w1")
  then have w2: "http_n w2 = http_n w" "popen_n w2 = Suc (popen_n w)"
    and proc: "proc = (case popen_replies E (popen_n w) of Inl e \<Rightarrow> None | Inr p \<Rightarrow> Some p)"
    using start_specific_api_fields [OF known, of w1] w1 by simp_all
  show ?thesis
  proof (cases "popen_replies E (popen_n w)")
    case (Inl e)
    then have "restart_specific_api E name w = (Inr False, w2)"
      using known k r s proc by (simp add: restart_specific_api_def)
    then show ?thesis using Inl Inr w2 by simp
  next
    case launched: (Inr p)
    then have rs: "restart_specific_api E name w =
        (Inr (fst (verify_api_health E name w2)), snd (verify_api_health E name w2))"
      using known k r s proc by (simp add: restart_specific_api_def split_beta)
    from verify_api_health_frame [of E E w w2 name] w2(1)
    have "fst (verify_api_health E name w2) = fst (verify_api_health E name w)"
      and "http_n (snd (verify_api_health E name w2)) = http_n (snd (verify_api_health E name w))"
      by auto
    then show ?thesis using launched Inr rs w2 by simp
  qed
qed

theorem restart_result_witness:
  "map_of (API_SERVICES kill_fails_env) ''Addition API'' = Some addition_api
   \<and> find_replies kill_fails_env (find_n (fresh_world [])) = Inr (Some 77)
   \<and> popen_n (snd (restart_specific_api kill_fails_env ''Addition API'' (fresh_world []))) = 1
   \<and> fst (restart_specific_api kill_fails_env ''Addition API'' (fresh_world [])) =
       Inr (fst (verify_api_health kill_fails_env ''Addition API'' (fresh_world [])))
   \<and> map_of (API_SERVICES launch_fails_env) ''Addition API'' = Some addition_api
   \<and> fst (restart_specific_api launch_fails_env ''Addition API'' (fresh_world [])) = Inr False
   \<and> http_n (snd (restart_specific_api launch_fails_env ''Addition API'' (fresh_world []))) = 0
   \<and> map_of (API_SERVICES lookup_fails_env) ''Addition API'' = Some addition_api
   \<and> restart_specific_api lookup_fails_env ''Addition API'' (fresh_world []) =
       (Inl (ProcessError ''[Errno 13] Permission denied''), (fresh_world [])\<lparr>find_n := 1\<rparr>)"
proof -
  have k1: "map_of (API_SERVICES kill_fails_env) ''Addition API'' = Some addition_api"
    by (simp add: kill_fails_env_def shipped_env_def shipped_services_def)
  have k2: "map_of (API_SERVICES launch_fails_env) ''Addition API'' = Some addition_api"
    by (simp add: launch_fails_env_def shipped_env_def shipped_services_def)
  have k3: "map_of (API_SERVICES lookup_fails_env) ''Addition API'' = Some addition_api"
    by (simp add: lookup_fails_env_def shipped_env_def shipped_services_def)
  have f1: "find_replies kill_fails_env 0 = Inr (Some 77)"
    by (simp add: kill_fails_env_def)
  have f2: "find_replies launch_fails_env 0 = Inr None"
    by (simp add: launch_fails_env_def shipped_env_def)
  have f3: "find_replies lookup_fails_env 0 = Inl ''[Errno 13] Permission denied''"
    by (simp add: lookup_fails_env_def)
  have p1: "popen_replies kill_fails_env 0 = Inr 4242"
    by (simp add: kill_fails_env_def shipped_env_def)
  have p2: "popen_replies launch_fails_env 0 = Inl ''No such file or directory''"
    by (simp add: launch_fails_env_def)
  have h: "http_n (fresh_world []) = 0" "popen_n (fresh_world []) = 0" "find_n (fresh_world []) = 0"
    by (simp_all add: fresh_world_def)
  show ?thesis
    using k1 k2 k3 restart_result [OF k1, of "fresh_world []"]
      restart_result [OF k2, of "fresh_world []"] restart_result [OF k3, of "fresh_world []"]
    by (simp add: f1 f2 f3 p1 p2 h)
qed

lemma kill_fails_kill: "kill_api_on_port kill_fails_env 8002 (fresh_world []) =
   (Inr False, (fresh_world [])\<lparr>find_n := Suc 0, kill_n := Suc 0, log := [EKill 77]\<rparr>)"
  by (simp add: kill_api_on_port_def find_process_on_port_def kill_fails_env_def
      emit_def fresh_world_def)

lemma py_str_8002: "py_str 8002 = ''8002''"
  by (simp add: py_str_def str_nat.simps)

lemma kill_fails_start: "start_specific_api kill_fails_env ''Addition API''
     ((fresh_world [])\<lparr>find_n := Suc 0, kill_n := Suc 0, log := [EKill 77]\<rparr>) =
   (Some 4242, (fresh_world [])\<lparr>find_n := Suc 0, kill_n := Suc 0, popen_n := Suc 0,
      log := [EKill 77, ELaunch [''-m'', ''uvicorn'', ''addition_app:app'', ''--host'', ''0.0.0.0'',
                               ''--port'', ''8002'']]\<rparr>)"
  by (simp add: start_specific_api_def kill_fails_env_def shipped_env_def
      shipped_services_def addition_api_def emit_def fresh_world_def py_str_8002)

lemma kill_fails_params: "health_check_params kill_fails_env = (10, 3, 5)"
  by (simp add: health_check_params_def merged_monitoring_config_def dict_get_def
      to_int_def to_float_def round_double_def kill_fails_env_def shipped_env_def shipped_monitoring_def)


lemma kill_fails_verify: "verify_api_health kill_fails_env ''Addition API''
     ((fresh_world [])\<lparr>find_n := Suc 0, kill_n := Suc 0, popen_n := Suc 0,
      log := [EKill 77, ELaunch [''-m'', ''uvicorn'', ''addition_app:app'', ''--host'', ''0.0.0.0'',
                               ''--port'', ''8002'']]\<rparr>) =
       (True, \<lparr>http_n = 1, llm_n = 0, smtp_n = 0, find_n = 1, kill_n = 1, popen_n = 1,
               stdin = [],
               log = [EKill 77,
                      ELaunch [''-m'', ''uvicorn'', ''addition_app:app'', ''--host'', ''0.0.0.0'',
                               ''--port'', ''8002''],
                      ESleep 3, EGet ''http://localhost:8002/health'' 5]\<rparr>)"
proof -
  have m: "map_of (API_SERVICES kill_fails_env) ''Addition API'' = Some addition_api"
    by (simp add: kill_fails_env_def shipped_env_def shipped_services_def)
  show ?thesis
    by (simp add: verify_api_health_def kill_fails_params m verify_loop_numeral py_sleep_def requests_get_def
        emit_def fresh_world_def addition_api_def, simp add: kill_fails_env_def)
qed

text \<open>
  The claim C3 as stated fails: the process on port 8002 cannot be killed, so the first
  step returns \<^verbatim>\<open>False\<close>, and yet the service is started, its health endpoint is
  asked and the restart returns \<^verbatim>\<open>True\<close>.
\<close>

theorem restart_after_failed_kill_counterexample:
  "fst (kill_api_on_port kill_fails_env 8002 (fresh_world [])) = Inr False
   \<and> restart_specific_api kill_fails_env ''Addition API'' (fresh_world []) =
       (Inr True, \<lparr>http_n = 1, llm_n = 0, smtp_n = 0, find_n = 1, kill_n = 1, popen_n = 1,
               stdin = [],
               log = [EKill 77,
                      ELaunch [''-m'', ''uvicorn'', ''addition_app:app'', ''--host'', ''0.0.0.0'',
                               ''--port'', ''8002''],
                      ESleep 3, EGet ''http://localhost:8002/health'' 5]\<rparr>)"
proof -
  have m: "map_of (API_SERVICES kill_fails_env) ''Addition API'' = Some addition_api"
    by (simp add: kill_fails_env_def shipped_env_def shipped_services_def)
  have q: "port addition_api = 8002" by (simp add: addition_api_def)
  show ?thesis
    by (simp add: restart_specific_api_def m q kill_fails_kill kill_fails_start
        kill_fails_verify)
qed

text \<open>
  C9. When no process holds the port, the first step returns \<^verbatim>\<open>True\<close> as it does
  when the process found is killed; the restart returns the same result in both cases, and
  both go on to the launch with the same effects from there on, the second having killed
  the process and slept two seconds before.
\<close>

theorem no_process_same_as_killed:
  assumes known: "map_of (API_SERVICES E) name = Some config"
    and none: "find_replies E (find_n w) = Inr None"
    and found: "f (find_n w) = Inr (Some pid)"
    and killed: "g (kill_n w) = None"
  shows "fst (kill_api_on_port E (port config) w) = Inr True
       \<and> fst (kill_api_on_port (E\<lparr>find_replies := f, kill_replies := g\<rparr>) (port config) w) =
           Inr True
       \<and> fst (restart_specific_api (E\<lparr>find_replies := f, kill_replies := g\<rparr>) name w) =
           fst (restart_specific_api E name w)
       \<and> (\<exists>evs. log (snd (restart_specific_api E name w)) =
                   log w @ ELaunch [''-m'', ''uvicorn'', app_module config, ''--host'',
                                    ''0.0.0.0'', ''--port'', py_str (port config)] # evs
               \<and> log (snd (restart_specific_api (E\<lparr>find_replies := f, kill_replies := g\<rparr>) name w)) =
                   log w @ [EKill pid, ESleep 2]
                   @ ELaunch [''-m'', ''uvicorn'', app_module config, ''--host'',
                              ''0.0.0.0'', ''--port'', py_str (port config)] # evs)"
proof -
  let ?E = "E\<lparr>find_replies := f, kill_replies := g\<rparr>"
  let ?cmd = "[''-m'', ''uvicorn'', app_module config, ''--host'', ''0.0.0.0'', ''--port'',
               py_str (port config)]"
  let ?w1 = "w\<lparr>find_n := Suc (find_n w)\<rparr>"
  let ?v1 = "emit (ESleep 2) (emit (EKill pid) (w\<lparr>find_n := Suc (find_n w), kill_n := Suc (kill_n w)\<rparr>))"
  let ?w2 = "emit (ELaunch ?cmd) (?w1\<lparr>popen_n := Suc (popen_n w)\<rparr>)"
  let ?v2 = "emit (ELaunch ?cmd) (?v1\<lparr>popen_n := Suc (popen_n w)\<rparr>)"
  have k1: "kill_api_on_port E (port config) w = (Inr True, ?w1)"
    using none by (simp add: kill_api_on_port_def find_process_on_port_def)
  have k2: "kill_api_on_port ?E (port config) w = (Inr True, ?v1)"
    using found killed
    by (simp add: kill_api_on_port_def find_process_on_port_def py_sleep_def)
  have l: "log ?w2 = log w @ [ELaunch ?cmd]" "log ?v2 = log w @ [EKill pid, ESleep 2] @ [ELaunch ?cmd]"
    by simp_all
  show ?thesis
  proof (cases "popen_replies E (popen_n w)")
    case (Inl e)
    then have "restart_specific_api E name w = (Inr False, ?w2)"
      and "restart_specific_api ?E name w = (Inr False, ?v2)"
      using known k1 k2 by (simp_all add: restart_specific_api_def start_specific_api_def)
    then show ?thesis using k1 k2 l by simp
  next
    case (Inr p)
    then have r: "restart_specific_api E name w =
        (Inr (fst (verify_api_health E name ?w2)), snd (verify_api_health E name ?w2))"
      "restart_specific_api ?E name w =
        (Inr (fst (verify_api_health ?E name ?v2)), snd (verify_api_health ?E name ?v2))"
      using known k1 k2
      by (simp_all add: restart_specific_api_def start_specific_api_def split_beta)
    have "http_n ?v2 = http_n ?w2" by simp
    from verify_api_health_frame [of ?E E ?v2 ?w2 name, OF _ _ _ this]
    obtain evs where "log (snd (verify_api_health E name ?w2)) = log ?w2 @ evs"
      "log (snd (verify_api_health ?E name ?v2)) = log ?v2 @ evs"
      "fst (verify_api_health ?E name ?v2) = fst (verify_api_health E name ?w2)"
      by auto
    then show ?thesis using k1 k2 l r by simp
  qed
qed

theorem no_process_same_as_killed_witness:
  "map_of (API_SERVICES shipped_env) ''Addition API'' = Some addition_api
   \<and> find_replies shipped_env (find_n (fresh_world [])) = Inr None
   \<and> fst (kill_api_on_port shipped_env 8002 (fresh_world [])) = Inr True
   \<and> fst (kill_api_on_port
             (shipped_env\<lparr>find_replies := (\<lambda>n. Inr (Some 77)), kill_replies := (\<lambda>n. None)\<rparr>)
             8002 (fresh_world [])) = Inr True
   \<and> fst (restart_specific_api
             (shipped_env\<lparr>find_replies := (\<lambda>n. Inr (Some 77)), kill_replies := (\<lambda>n. None)\<rparr>)
             ''Addition API'' (fresh_world [])) =
       fst (restart_specific_api shipped_env ''Addition API'' (fresh_world []))"
proof -
  have known: "map_of (API_SERVICES shipped_env) ''Addition API'' = Some addition_api"
    by (simp add: shipped_env_def shipped_services_def)
  have none: "find_replies shipped_env (find_n (fresh_world [])) = Inr None"
    by (simp add: shipped_env_def)
  have found: "(\<lambda>n::nat. Inr (Some (77::nat)) :: string + nat option) (find_n (fresh_world [])) =
      Inr (Some 77)" by simp
  have killed: "(\<lambda>n::nat. None :: string option) (kill_n (fresh_world [])) = None" by simp
  have q: "port addition_api = 8002" by (simp add: addition_api_def)
  from no_process_same_as_killed [OF known none found killed] known none q
  show ?thesis by simp
qed

section \<open>The monitor\<close>

text \<open>
  C8. \<^verbatim>\<open>check_api_health\<close> returns a state for every answer of the network, and
  never an exception: status 200 gives \<^verbatim>\<open>healthy\<close>; another status gives
  \<^verbatim>\<open>unhealthy\<close> with the status code and the body in the details; an exception
  of the request (connection failure, timeout) gives \<^verbatim>\<open>down\<close>, the code's name for
  the unreachable outcome, with the text of the exception in the details.
\<close>

theorem check_api_health_outcomes:
  "\<exists>s'. check_api_health E s w = (Inr s', emit (EGet (api_url s) 5) (w\<lparr>http_n := Suc (http_n w)\<rparr>))
      \<and> (case http_replies E (http_n w) of
            Response status_code body \<Rightarrow>
              if status_code = 200 then api_status s' = ''healthy''
              else api_status s' = ''unhealthy''
                   \<and> error_details s' =
                       ''Status Code: '' @ py_str status_code @ ''\<newline>Response: '' @ body
          | ConnectionError e \<Rightarrow>
              api_status s' = ''down''
              \<and> error_details s' =
                  ''Connection Error: '' @ e @ ''\<newline>Port: '' @ py_str (api_port s)
          | RequestException e \<Rightarrow>
              api_status s' = ''down''
              \<and> error_details s' =
                  ''Connection Error: '' @ e @ ''\<newline>Port: '' @ py_str (api_port s))"
  by (cases "http_replies E (http_n w)")
     (simp_all add: check_api_health_def requests_get_def)

theorem check_api_health_outcomes_witness:
  "\<exists>s'. fst (check_api_health shipped_env (initial_state ''Addition API'' addition_api)
                (fresh_world [])) = Inr s'
      \<and> api_status s' = ''down''
      \<and> error_details s' = ''Connection Error: refused\<newline>Port: 8002''"
proof -
  have r: "http_replies shipped_env (http_n (fresh_world [])) = ConnectionError ''refused''"
    by (simp add: shipped_env_def)
  have p: "py_str (api_port (initial_state ''Addition API'' addition_api)) = ''8002''"
    by (simp add: initial_state_def addition_api_def py_str_def str_nat.simps)
  from check_api_health_outcomes
    [of shipped_env "initial_state ''Addition API'' addition_api" "fresh_world []"]
  show ?thesis by (auto simp: r p)
qed

text \<open>
  C5 at its failing input. With \<^verbatim>\<open>restart_delay\<close> set to \<^verbatim>\<open>None\<close> the node
  \<^verbatim>\<open>attempt_restart\<close> raises \<^verbatim>\<open>TypeError\<close> before anything else happens, and
  with \<^verbatim>\<open>check_interval\<close> set to a list \<^verbatim>\<open>run_monitoring\<close> raises it before
  its first round; the three \<^verbatim>\<open>health_check\<close> entries of the same configuration
  fall back to their defaults 10, 3 and 5.
\<close>

theorem unguarded_int_conversion:
  "attempt_restart none_delay_env (initial_state ''Addition API'' addition_api) (fresh_world []) =
     (Inl TypeError, fresh_world [])
   \<and> run_monitoring none_delay_env 1 (fresh_world []) = (Some TypeError, fresh_world [])
   \<and> health_check_params none_delay_env = (10, 3, 5)"
  by (simp add: attempt_restart_def run_monitoring_def none_delay_env_def
      health_check_params_def merged_monitoring_config_def dict_get_def to_int_def to_float_def round_double_def
      DEFAULT_MONITORING_CONFIG_def)


subsection \<open>The effects of the steps on the log\<close>

lemma node_states_append: "node_states (xs @ ys) = node_states xs @ node_states ys"
  by (induction xs rule: node_states.induct) simp_all

lemma node_states_plain: "\<forall>e \<in> set evs. \<not> is_node e \<Longrightarrow> node_states evs = []"
  by (induction evs rule: node_states.induct) simp_all

lemma is_restart_plain: "\<forall>e \<in> set evs. \<not> is_node e \<Longrightarrow> filter is_restart evs = []"
  by (induction evs rule: node_states.induct) simp_all

lemma quiet_refl: "quiet 0 w w"
  by (simp add: quiet_def)

lemma quiet_trans: "quiet j w w1 \<Longrightarrow> quiet k w1 w2 \<Longrightarrow> quiet (j + k) w w2"
  by (fastforce simp: quiet_def)

lemma quiet_mono0: "quiet 0 w w' \<Longrightarrow> quiet 1 w w'"
  by (auto simp: quiet_def)

lemma quiet_trans0: "quiet 0 w w1 \<Longrightarrow> quiet k w1 w2 \<Longrightarrow> quiet k w w2"
  using quiet_trans [of 0 w w1 k w2] by simp

lemma quiet_py_sleep: "quiet 0 w (snd (py_sleep x w))"
  by (simp add: py_sleep_def quiet_def)

lemma quiet_requests_get: "quiet 0 w (snd (requests_get E url t w))"
  by (simp add: requests_get_def quiet_def)

lemma quiet_countdown: "quiet 0 w (countdown k w)"
proof (induction k arbitrary: w)
  case 0
  show ?case by (simp add: quiet_refl)
next
  case (Suc k)
  from quiet_trans0 [OF quiet_py_sleep Suc.IH] show ?case by simp
qed

lemma quiet_verify_loop: "quiet 0 w (snd (verify_loop E url wt to k w))"
proof (induction k arbitrary: w)
  case 0
  show ?case by (simp add: quiet_refl)
next
  case (Suc k)
  obtain r w1 where s: "py_sleep wt w = (r, w1)" by (cases "py_sleep wt w")
  then have q1: "quiet 0 w w1" using quiet_py_sleep [of w wt] by simp
  show ?case
  proof (cases r)
    case (Inl e)
    with s have "verify_loop E url wt to (Suc k) w = verify_loop E url wt to k w1" by simp
    with quiet_trans0 [OF q1 Suc.IH] show ?thesis by simp
  next
    case (Inr u)
    obtain h w2 where g: "requests_get E url to w1 = (h, w2)" by (cases "requests_get E url to w1")
    then have q2: "quiet 0 w w2" using quiet_trans0 [OF q1 quiet_requests_get [of w1 E url to]] by simp
    have "verify_loop E url wt to (Suc k) w = (True, w2)
        \<or> verify_loop E url wt to (Suc k) w = verify_loop E url wt to k w2"
      using s Inr g by (cases h) auto
    then show ?thesis using q2 quiet_trans0 [OF q2 Suc.IH] by auto
  qed
qed

lemma quiet_verify: "quiet 0 w (snd (verify_api_health E name w))"
  by (auto simp: verify_api_health_def quiet_refl quiet_verify_loop
      split: option.splits prod.splits)

lemma quiet_kill: "quiet 0 w (snd (kill_api_on_port E p w))"
  by (auto simp: kill_api_on_port_def find_process_on_port_def py_sleep_def Let_def quiet_def
      split: option.splits sum.splits)

lemma quiet_start: "quiet 1 w (snd (start_specific_api E name w))"
  by (auto simp: start_specific_api_def Let_def quiet_def split: option.splits sum.splits)

lemma quiet_restart: "quiet 1 w (snd (restart_specific_api E name w))"
proof (cases "map_of (API_SERVICES E) name")
  case None
  then show ?thesis by (simp add: restart_specific_api_def quiet_def)
next
  case (Some config)
  obtain r w1 where a: "kill_api_on_port E (port config) w = (r, w1)"
    by (cases "kill_api_on_port E (port config) w")
  have qk: "quiet 0 w w1" using quiet_kill [of w E "port config"] a by simp
  show ?thesis
  proof (cases r)
    case (Inl e)
    then show ?thesis using Some a quiet_mono0 [OF qk] by (simp add: restart_specific_api_def)
  next
    case (Inr killed)
    obtain p w2 where b: "start_specific_api E name w1 = (p, w2)"
      by (cases "start_specific_api E name w1")
    have qs: "quiet 1 w1 w2" using quiet_start [of w1 E name] b by simp
    have q2: "quiet 1 w w2" by (rule quiet_trans0 [OF qk qs])
    show ?thesis
    proof (cases p)
      case None
      then show ?thesis
        using \<open>map_of (API_SERVICES E) name = Some config\<close> a Inr b q2
        by (simp add: restart_specific_api_def)
    next
      case (Some process)
      from quiet_trans [OF q2 quiet_verify [of w2 E name]]
      have "quiet 1 w (snd (verify_api_health E name w2))" by simp
      then show ?thesis
        using \<open>map_of (API_SERVICES E) name = Some config\<close> a Inr b Some
        by (simp add: restart_specific_api_def split_beta)
    qed
  qed
qed

subsection \<open>The effects of the nodes on the flags\<close>

lemma review_loop_keeps:
  "review_loop s ls = (Inr s', rest) \<Longrightarrow>
     email_sent s' = email_sent s \<and> recovery_email_sent s' = recovery_email_sent s
     \<and> recovery_status s' = recovery_status s"
proof (induction s ls rule: review_loop.induct)
  case (1 s)
  then show ?case by simp
next
  case (2 s l ls)
  show ?case
  proof (cases "py_strip l = ''1'' \<or> py_strip l = ''2''")
    case True
    with "2.prems" show ?thesis by (auto split: if_splits)
  next
    case False
    then have n12: "py_strip l \<noteq> ''1''" "py_strip l \<noteq> ''2''" by simp_all
    show ?thesis
    proof (cases "py_strip l = ''3''")
      case c3: True
      obtain x y where rb: "(x, y) = read_body [] ls" by (cases "read_body [] ls") auto
      show ?thesis
      proof (cases x)
        case None
        with "2.prems" n12 c3 rb [symmetric] show ?thesis by simp
      next
        case (Some lines)
        with "2.prems" n12 c3 rb [symmetric]
        have "review_loop (s\<lparr>email_body := py_join ''\<newline>'' lines\<rparr>) y = (Inr s', rest)"
          by simp
        from "2.IH"(1) [OF n12 c3 rb Some this] show ?thesis by simp
      qed
    next
      case n3: False
      show ?thesis
      proof (cases "py_strip l = ''4''")
        case c4: True
        show ?thesis
        proof (cases ls)
          case Nil
          with "2.prems" n12 n3 c4 show ?thesis by simp
        next
          case (Cons subject more)
          with "2.prems" n12 n3 c4
          have "review_loop (s\<lparr>email_subject := py_strip subject\<rparr>) more = (Inr s', rest)"
            by simp
          from "2.IH"(2) [OF n12 n3 c4 Cons this] show ?thesis by simp
        qed
      next
        case n4: False
        with "2.prems" n12 n3 have "review_loop s ls = (Inr s', rest)" by simp
        from "2.IH"(3) [OF n12 n3 n4 this] show ?thesis .
      qed
    qed
  qed
qed

lemma quiet_human_review: "quiet 0 w (snd (human_review E s w))"
  by (auto simp: human_review_def quiet_def split: prod.splits)

lemma quiet_check: "quiet 0 w (snd (check_api_health E s w))"
  by (auto simp: check_api_health_def requests_get_def quiet_def split: prod.splits)

lemma quiet_analyze: "quiet 0 w (snd (agent_analyze E s w))"
  by (auto simp: agent_analyze_def Let_def quiet_def split: llm_result.splits sum.splits)

lemma quiet_send: "quiet 0 w (snd (send_email_action E s w))"
  by (auto simp: send_email_action_def send_email_alert_def Let_def quiet_def split: option.splits)

lemma quiet_attempt: "quiet 1 w (snd (attempt_restart E s w))"
proof (cases "py_int (case MONITORING_CONFIG E ''restart_delay'' of None \<Rightarrow> PInt 30 | Some v \<Rightarrow> v)")
  case (Inl e)
  then show ?thesis by (simp add: attempt_restart_def quiet_def)
next
  case (Inr d)
  let ?w1 = "countdown (nat (if d < 0 then 0 else d)) w"
  have "quiet 1 w (snd (restart_specific_api E (api_name s) ?w1))"
    by (rule quiet_trans0 [OF quiet_countdown quiet_restart])
  then show ?thesis using Inr
    by (cases "restart_specific_api E (api_name s) ?w1"; cases "fst (restart_specific_api E (api_name s) ?w1)")
       (simp_all add: attempt_restart_def Let_def)
qed

lemma quiet_node: "quiet (if n = N_attempt_restart then 1 else 0) w (snd (node_fn n E s w))"
  using quiet_attempt [of w E s]
  by (cases n) (simp_all add: quiet_check quiet_analyze quiet_human_review quiet_send)


lemma analyze_keeps:
  "agent_analyze E s w = (Inr s1, w1) \<Longrightarrow>
     email_sent s1 = email_sent s \<and> recovery_email_sent s1 = recovery_email_sent s
     \<and> recovery_status s1 = recovery_status s"
  by (auto simp: agent_analyze_def Let_def split: llm_result.splits sum.splits)

lemma human_review_keeps:
  "human_review E s w = (Inr s1, w1) \<Longrightarrow>
     email_sent s1 = email_sent s \<and> recovery_email_sent s1 = recovery_email_sent s
     \<and> recovery_status s1 = recovery_status s"
proof -
  assume a: "human_review E s w = (Inr s1, w1)"
  obtain r rest where b: "review_loop s (stdin w) = (r, rest)" by (cases "review_loop s (stdin w)")
  with a have "r = Inr s1" by (simp add: human_review_def)
  with b review_loop_keeps [of s "stdin w" s1 rest] show ?thesis by simp
qed

lemma send_keeps:
  "send_email_action E s w = (Inr s1, w1) \<Longrightarrow>
     (email_sent s \<longrightarrow> email_sent s1) \<and> (recovery_email_sent s \<longrightarrow> recovery_email_sent s1)"
  by (auto simp: send_email_action_def send_email_alert_def Let_def
      split: if_splits option.splits)

lemma attempt_keeps:
  "attempt_restart E s w = (Inr s1, w1) \<Longrightarrow>
     email_sent s1 = email_sent s \<and> recovery_email_sent s1 = recovery_email_sent s"
  by (auto simp: attempt_restart_def Let_def split: sum.splits prod.splits)

lemma node_keeps_flags:
  assumes "node_fn n E s w = (Inr s1, w1)" "n \<noteq> N_check_health"
  shows "(email_sent s \<longrightarrow> email_sent s1) \<and> (recovery_email_sent s \<longrightarrow> recovery_email_sent s1)"
  using assms analyze_keeps [of E s w s1 w1] human_review_keeps [of E s w s1 w1]
    send_keeps [of E s w s1 w1] attempt_keeps [of E s w s1 w1]
  by (cases n) simp_all


subsection \<open>The trace of a run of the graph\<close>

lemma rises_step:
  "rises f (s1 # rest) \<le> (if f s1 then 0 else 1) \<Longrightarrow> c \<or> (f s \<longrightarrow> f s1)
   \<Longrightarrow> rises f (s # s1 # rest) \<le> (if f s \<and> \<not> c then 0 else 1)"
  by (auto split: if_splits)

lemma run_from_step:
  assumes "run_from E n s w = (r, w')"
  obtains (raised) e w1 where "node_fn n E s (emit (ENode n s) w) = (Inl e, w1)" "r = Inl e" "w' = w1"
  | (ended) s1 w1 where "node_fn n E s (emit (ENode n s) w) = (Inr s1, w1)" "next_node n s1 = None"
      "r = Inr s1" "w' = w1"
  | (went_on) s1 w1 m where "node_fn n E s (emit (ENode n s) w) = (Inr s1, w1)"
      "next_node n s1 = Some m" "run_from E m s1 w1 = (r, w')"
proof -
  obtain r1 w1 where nf: "node_fn n E s (emit (ENode n s) w) = (r1, w1)"
    by (cases "node_fn n E s (emit (ENode n s) w)")
  show ?thesis
  proof (cases r1)
    case (Inl e)
    with assms nf have "r = Inl e" "w' = w1" by (simp_all add: run_from.simps [of E n s w])
    with nf Inl raised show ?thesis by simp
  next
    case (Inr s1)
    show ?thesis
    proof (cases "next_node n s1")
      case None
      with assms nf Inr have "r = Inr s1" "w' = w1" by (simp_all add: run_from.simps [of E n s w])
      with nf Inr None ended show ?thesis by simp
    next
      case (Some m)
      with assms nf Inr have "run_from E m s1 w1 = (r, w')" by (simp add: run_from.simps [of E n s w])
      with nf Inr Some went_on show ?thesis by simp
    qed
  qed
qed

lemma node_log:
  assumes "node_fn n E s (emit (ENode n s) w) = (r1, w1)"
  obtains ev1 where "log w1 = log w @ ENode n s # ev1" "\<forall>e \<in> set ev1. \<not> is_node e"
    "popen_n w1 \<le> popen_n w + (if n = N_attempt_restart then 1 else 0)"
proof -
  from quiet_node [of n "emit (ENode n s) w" E s] assms
  have "quiet (if n = N_attempt_restart then 1 else 0) (emit (ENode n s) w) w1" by simp
  then obtain ev1 where "log w1 = log (emit (ENode n s) w) @ ev1" "\<forall>e \<in> set ev1. \<not> is_node e"
    and "popen_n w1 \<le> popen_n (emit (ENode n s) w) + (if n = N_attempt_restart then 1 else 0)"
    unfolding quiet_def by blast
  then show ?thesis using that [of ev1] by simp
qed


lemma run_from_trace:
  "run_from E n s w = (r, w') \<Longrightarrow>
     \<exists>evs. log w' = log w @ ENode n s # evs
       \<and> (\<forall>m t. ENode m t \<in> set evs \<longrightarrow> rank n < rank m)
       \<and> length (filter is_restart (ENode n s # evs)) \<le> (if rank n \<le> 4 then 1 else 0)
       \<and> rises email_sent (s # node_states evs @ final_state r)
           \<le> (if email_sent s \<and> \<not> n = N_check_health then 0 else 1)
       \<and> rises recovery_email_sent (s # node_states evs @ final_state r)
           \<le> (if recovery_email_sent s \<and> \<not> n = N_check_health then 0 else 1)
       \<and> popen_n w' \<le> popen_n w + (if rank n \<le> 4 then 1 else 0)"
proof (induction E n s w arbitrary: r w' rule: run_from.induct)
  case (1 E n s w)
  have rk: "is_restart (ENode n s) \<Longrightarrow> rank n \<le> 4" by (cases n) simp_all
  have rk': "n = N_attempt_restart \<Longrightarrow> rank n = 4" by simp
  from "1.prems" show ?case
  proof (cases rule: run_from_step)
    case (raised e w1)
    from node_log [OF raised(1)] obtain ev1 where ev1: "log w1 = log w @ ENode n s # ev1"
      "\<forall>e \<in> set ev1. \<not> is_node e"
      "popen_n w1 \<le> popen_n w + (if n = N_attempt_restart then 1 else 0)" by blast
    have a: "\<forall>m t. ENode m t \<in> set ev1 \<longrightarrow> rank n < rank m" using ev1(2) by fastforce
    have b: "length (filter is_restart (ENode n s # ev1)) \<le> (if rank n \<le> 4 then 1 else 0)"
      using is_restart_plain [OF ev1(2)] rk by simp
    have c: "node_states ev1 @ final_state r = []"
      using node_states_plain [OF ev1(2)] raised(2) by (simp add: final_state_def)
    have d: "popen_n w' \<le> popen_n w + (if rank n \<le> 4 then 1 else 0)"
      using ev1(3) raised(3) rk' by (auto split: if_splits)
    show ?thesis
      apply (rule exI [of _ ev1])
      using ev1(1) raised(3) a b c d by simp
  next
    case (ended s1 w1)
    from node_log [OF ended(1)] obtain ev1 where ev1: "log w1 = log w @ ENode n s # ev1"
      "\<forall>e \<in> set ev1. \<not> is_node e"
      "popen_n w1 \<le> popen_n w + (if n = N_attempt_restart then 1 else 0)" by blast
    have a: "\<forall>m t. ENode m t \<in> set ev1 \<longrightarrow> rank n < rank m" using ev1(2) by fastforce
    have b: "length (filter is_restart (ENode n s # ev1)) \<le> (if rank n \<le> 4 then 1 else 0)"
      using is_restart_plain [OF ev1(2)] rk by simp
    have c: "node_states ev1 @ final_state r = [s1]"
      using node_states_plain [OF ev1(2)] ended(3) by (simp add: final_state_def)
    have d: "popen_n w' \<le> popen_n w + (if rank n \<le> 4 then 1 else 0)"
      using ev1(3) ended(4) rk' by (auto split: if_splits)
    have e: "rises email_sent [s, s1] \<le> (if email_sent s \<and> \<not> n = N_check_health then 0 else 1)"
      "rises recovery_email_sent [s, s1]
         \<le> (if recovery_email_sent s \<and> \<not> n = N_check_health then 0 else 1)"
      by simp_all
    show ?thesis
      apply (rule exI [of _ ev1])
      using ev1(1) ended(4) a b c d e by simp
  next
    case (went_on s1 w1 m)
    from node_log [OF went_on(1)] obtain ev1 where ev1: "log w1 = log w @ ENode n s # ev1"
      "\<forall>e \<in> set ev1. \<not> is_node e"
      "popen_n w1 \<le> popen_n w + (if n = N_attempt_restart then 1 else 0)" by blast
    from next_node_rank [OF went_on(2)] have nm: "rank n < rank m" by simp
    then have mc: "m \<noteq> N_check_health" by (cases m) simp_all
    from "1.IH" [OF went_on(1) [symmetric] refl went_on(2) went_on(3)]
    obtain ev2 where ev2: "log w' = log w1 @ ENode m s1 # ev2"
      "\<forall>k t. ENode k t \<in> set ev2 \<longrightarrow> rank m < rank k"
      "length (filter is_restart (ENode m s1 # ev2)) \<le> (if rank m \<le> 4 then 1 else 0)"
      "rises email_sent (s1 # node_states ev2 @ final_state r)
         \<le> (if email_sent s1 \<and> \<not> m = N_check_health then 0 else 1)"
      "rises recovery_email_sent (s1 # node_states ev2 @ final_state r)
         \<le> (if recovery_email_sent s1 \<and> \<not> m = N_check_health then 0 else 1)"
      "popen_n w' \<le> popen_n w1 + (if rank m \<le> 4 then 1 else 0)" by blast
    let ?evs = "ev1 @ ENode m s1 # ev2"
    have l: "log w' = log w @ ENode n s # ?evs" using ev1(1) ev2(1) by simp
    have a: "\<forall>k t. ENode k t \<in> set ?evs \<longrightarrow> rank n < rank k"
      using ev1(2) ev2(2) nm by fastforce
    have b: "length (filter is_restart (ENode n s # ?evs)) \<le> (if rank n \<le> 4 then 1 else 0)"
    proof (cases "n = N_attempt_restart")
      case True
      with nm have "\<not> rank m \<le> 4" by simp
      with ev2(3) have "filter is_restart (ENode m s1 # ev2) = []" by simp
      then show ?thesis using is_restart_plain [OF ev1(2)] True by simp
    next
      case False
      then have "\<not> is_restart (ENode n s)" by simp
      moreover have "rank m \<le> 4 \<Longrightarrow> rank n \<le> 4" using nm by simp
      ultimately show ?thesis using is_restart_plain [OF ev1(2)] ev2(3)
        by (auto split: if_splits)
    qed
    have ns: "node_states ?evs @ final_state r = s1 # node_states ev2 @ final_state r"
      using node_states_plain [OF ev1(2)] by (simp add: node_states_append)
    have keep: "n = N_check_health \<or> (email_sent s \<longrightarrow> email_sent s1)"
      "n = N_check_health \<or> (recovery_email_sent s \<longrightarrow> recovery_email_sent s1)"
      using node_keeps_flags [OF went_on(1)] by auto
    have c1: "rises email_sent (s # node_states ?evs @ final_state r)
        \<le> (if email_sent s \<and> \<not> n = N_check_health then 0 else 1)"
      unfolding ns using ev2(4) mc keep(1) by (intro rises_step) simp_all
    have c2: "rises recovery_email_sent (s # node_states ?evs @ final_state r)
        \<le> (if recovery_email_sent s \<and> \<not> n = N_check_health then 0 else 1)"
      unfolding ns using ev2(5) mc keep(2) by (intro rises_step) simp_all
    have d: "popen_n w' \<le> popen_n w + (if rank n \<le> 4 then 1 else 0)"
    proof (cases "n = N_attempt_restart")
      case True
      with nm have "\<not> rank m \<le> 4" by simp
      with ev2(6) ev1(3) True show ?thesis by simp
    next
      case False
      moreover have "rank m \<le> 4 \<Longrightarrow> rank n \<le> 4" using nm by simp
      ultimately show ?thesis using ev2(6) ev1(3) by (auto split: if_splits)
    qed
    show ?thesis
      apply (rule exI [of _ ?evs])
      using l a b c1 c2 d by blast
  qed
qed


text \<open>
  C6. In one pass of the graph the flag \<^verbatim>\<open>email_sent\<close> goes from false to true at
  most once, and so does \<^verbatim>\<open>recovery_email_sent\<close>; the node \<^verbatim>\<open>attempt_restart\<close>
  is started at most once, and at most one process is launched.
\<close>

theorem recovery_run_at_most_once:
  "rises email_sent (pass_states E s w) \<le> 1
   \<and> rises recovery_email_sent (pass_states E s w) \<le> 1
   \<and> length (filter is_restart (new_events w (snd (graph_invoke E s w)))) \<le> 1
   \<and> popen_n (snd (graph_invoke E s w)) \<le> Suc (popen_n w)"
proof -
  obtain r w' where g: "graph_invoke E s w = (r, w')" by (cases "graph_invoke E s w")
  then have "run_from E N_check_health s w = (r, w')" by (simp add: graph_invoke_def)
  from run_from_trace [OF this] obtain evs where
    l: "log w' = log w @ ENode N_check_health s # evs"
    and a: "length (filter is_restart (ENode N_check_health s # evs)) \<le> 1"
    and b: "rises email_sent (s # node_states evs @ final_state r) \<le> 1"
    and c: "rises recovery_email_sent (s # node_states evs @ final_state r) \<le> 1"
    and d: "popen_n w' \<le> popen_n w + 1"
    by auto
  from l have n: "new_events w w' = ENode N_check_health s # evs" by (simp add: new_events_def)
  then have p: "pass_states E s w = s # node_states evs @ final_state r"
    using g by (simp add: pass_states_def)
  from a b c d show ?thesis unfolding p using g n by simp
qed

subsection \<open>A failed draft\<close>

lemma split_two: "py_split ''---'' ''ANALYSIS: down---SUBJECT: alert'' = Inr [''ANALYSIS: down'', ''SUBJECT: alert'']"
  by (simp add: py_split_def)

lemma two_segment_pass:
  "fst (graph_invoke two_segment_env (initial_state name config) (fresh_world [])) = Inl IndexError"
  apply (simp add: graph_invoke_def)
  apply (subst run_from.simps)
  apply (simp add: check_api_health_def requests_get_def two_segment_env_def shipped_env_def
      should_alert_def)
  apply (subst run_from.simps)
  apply (simp add: agent_analyze_def split_two py_index_def)
  done

lemma llm_down_pass:
  "fst (graph_invoke llm_down_env (initial_state name config) (fresh_world [])) =
     Inl (LLMException ''Connection error.'')"
  apply (simp add: graph_invoke_def)
  apply (subst run_from.simps)
  apply (simp add: check_api_health_def requests_get_def llm_down_env_def shipped_env_def
      should_alert_def)
  apply (subst run_from.simps)
  apply (simp add: agent_analyze_def)
  done

lemma monitor_services_raises:
  "fst (graph_invoke E (initial_state name config) w) = Inl e
   \<Longrightarrow> fst (monitor_services E ((name, config) # rest) w) = Inl e"
  by (cases "graph_invoke E (initial_state name config) w") (auto split: sum.splits)

lemma monitoring_loop_raises:
  "fst (monitor_services E (API_SERVICES E) w) = Inl e
   \<Longrightarrow> fst (monitoring_loop E c (Suc k) w) = Some e"
  by (cases "monitor_services E (API_SERVICES E) w") auto

text \<open>
  C1 at its failing input. An answer of the language model in two segments, or an
  exception of \<^verbatim>\<open>llm.invoke\<close>, leaves \<^verbatim>\<open>graph.invoke\<close> as an exception and ends
  the loop of \<^verbatim>\<open>run_monitoring\<close> in its first round.
\<close>

theorem draft_failure_ends_monitoring:
  "fst (run_monitoring two_segment_env 1 (fresh_world [])) = Some IndexError
   \<and> fst (run_monitoring llm_down_env 1 (fresh_world [])) = Some (LLMException ''Connection error.'')"
proof -
  have a: "API_SERVICES two_segment_env = shipped_services"
    "API_SERVICES llm_down_env = shipped_services"
    "MONITORING_CONFIG two_segment_env ''check_interval'' = Some (PInt 15)"
    "MONITORING_CONFIG llm_down_env ''check_interval'' = Some (PInt 15)"
    by (simp_all add: two_segment_env_def llm_down_env_def shipped_env_def shipped_monitoring_def)
  have "fst (monitor_services two_segment_env shipped_services (fresh_world [])) = Inl IndexError"
    unfolding shipped_services_def by (rule monitor_services_raises) (rule two_segment_pass)
  moreover have "fst (monitor_services llm_down_env shipped_services (fresh_world [])) =
      Inl (LLMException ''Connection error.'')"
    unfolding shipped_services_def by (rule monitor_services_raises) (rule llm_down_pass)
  ultimately show ?thesis
    using monitoring_loop_raises [of two_segment_env "fresh_world []" IndexError 15 0]
      monitoring_loop_raises [of llm_down_env "fresh_world []" "LLMException ''Connection error.''" 15 0]
    by (simp add: run_monitoring_def a)
qed


lemma check_api_health_result:
  "\<exists>s1. check_api_health E s w =
          (Inr s1, emit (EGet (api_url s) 5) (w\<lparr>http_n := Suc (http_n w)\<rparr>))
      \<and> \<not> email_sent s1 \<and> \<not> recovery_email_sent s1
      \<and> recovery_status s1 = recovery_status s
      \<and> (api_status s1 = ''healthy'' \<longleftrightarrow> is_200 (http_replies E (http_n w)))"
  by (cases "http_replies E (http_n w)")
     (simp_all add: check_api_health_def requests_get_def)

lemma agent_analyze_world:
  "snd (agent_analyze E s w) =
     emit (ELlm (if recovery_status s = ''success'' then ''recovery'' else ''alert''))
       (w\<lparr>llm_n := Suc (llm_n w)\<rparr>)"
  by (simp add: agent_analyze_def Let_def split: llm_result.splits sum.splits)

lemma human_review_log: "log (snd (human_review E s w)) = log w"
  by (simp add: human_review_def split_beta)

lemma send_rejected:
  "human_approval s = ''rejected'' \<Longrightarrow> \<not> email_sent s \<Longrightarrow> \<not> recovery_email_sent s
   \<Longrightarrow> send_email_action E s w =
         (Inr (s\<lparr>action_taken := ''Email cancelled by user '' @ cross_mark\<rparr>), w)"
  by (simp add: send_email_action_def)

lemma short_draft:
  assumes "llm_replies E (llm_n w) = Content content"
    and "py_split ''---'' content = Inr parts" and "length parts < 3"
  shows "agent_analyze E s w =
     (Inl IndexError,
      emit (ELlm (if recovery_status s = ''success'' then ''recovery'' else ''alert''))
        (w\<lparr>llm_n := Suc (llm_n w)\<rparr>))"
proof -
  have "fst (agent_analyze E s w) = Inl IndexError"
    using assms by (auto simp: agent_analyze_def Let_def py_index_def)
  then show ?thesis using agent_analyze_world [of E s w] by (simp add: prod_eq_iff)
qed


text \<open>
  C2 as the code has it. When the answer of the language model splits into fewer than
  three segments at \<^verbatim>\<open>---\<close>, \<^verbatim>\<open>agent_analyze\<close> raises \<^verbatim>\<open>IndexError\<close>; the run
  of the graph ends with this exception at the drafting node, alert or recovery, with the
  request to the language model as its last effect, so that nothing is sent after it; and
  when it is the draft of the alert of a pass (the service did not answer 200), the pass
  has no other effects than the health check and this request: no email at all.
\<close>

theorem short_draft_aborts_pass:
  assumes "llm_replies E (llm_n w) = Content content"
    and "py_split ''---'' content = Inr parts" and "length parts < 3"
  shows "agent_analyze E s w =
           (Inl IndexError,
            emit (ELlm (if recovery_status s = ''success'' then ''recovery'' else ''alert''))
              (w\<lparr>llm_n := Suc (llm_n w)\<rparr>))
       \<and> (\<forall>n \<in> {N_analyze_alert, N_analyze_recovery}.
             run_from E n s w =
               (Inl IndexError,
                emit (ELlm (if recovery_status s = ''success'' then ''recovery'' else ''alert''))
                  ((emit (ENode n s) w)\<lparr>llm_n := Suc (llm_n w)\<rparr>)))
       \<and> (\<not> is_200 (http_replies E (http_n w)) \<longrightarrow>
             fst (graph_invoke E s w) = Inl IndexError
             \<and> (\<exists>s1. new_events w (snd (graph_invoke E s w)) =
                    [ENode N_check_health s, EGet (api_url s) 5, ENode N_analyze_alert s1,
                     ELlm (if recovery_status s = ''success'' then ''recovery'' else ''alert'')]))"
proof -
  let ?ty = "\<lambda>s. if recovery_status s = ''success'' then ''recovery'' else ''alert''"
  have node: "run_from E n t v =
      (Inl IndexError, emit (ELlm (?ty t)) ((emit (ENode n t) v)\<lparr>llm_n := Suc (llm_n v)\<rparr>))"
    if "n = N_analyze_alert \<or> n = N_analyze_recovery" "llm_n v = llm_n w" for n t v
  proof -
    have "llm_replies E (llm_n (emit (ENode n t) v)) = Content content"
      using assms(1) that(2) by simp
    from short_draft [OF this assms(2,3), of t] that(1) show ?thesis
      by (auto simp: run_from.simps [of E n t v])
  qed
  have pass: "fst (graph_invoke E s w) = Inl IndexError
      \<and> (\<exists>s1. new_events w (snd (graph_invoke E s w)) =
             [ENode N_check_health s, EGet (api_url s) 5, ENode N_analyze_alert s1, ELlm (?ty s)])"
    if down: "\<not> is_200 (http_replies E (http_n w))"
  proof -
    let ?w0 = "emit (ENode N_check_health s) w"
    let ?w1 = "emit (EGet (api_url s) 5) (?w0\<lparr>http_n := Suc (http_n ?w0)\<rparr>)"
    from check_api_health_result [of E s ?w0] obtain s1 where
      c: "check_api_health E s ?w0 = (Inr s1, ?w1)"
      and rs: "recovery_status s1 = recovery_status s"
      and st: "api_status s1 \<noteq> ''healthy''"
      using down by auto
    have "llm_n ?w1 = llm_n w" by simp
    from node [OF _ this, of N_analyze_alert s1]
    have a: "run_from E N_analyze_alert s1 ?w1 =
       (Inl IndexError,
        emit (ELlm (?ty s)) ((emit (ENode N_analyze_alert s1) ?w1)\<lparr>llm_n := Suc (llm_n ?w1)\<rparr>))"
      using rs by simp
    have g: "graph_invoke E s w = run_from E N_analyze_alert s1 ?w1"
      using c st by (simp add: graph_invoke_def run_from.simps [of E N_check_health s w] should_alert_def)
    show ?thesis unfolding g a by (auto simp: new_events_def)
  qed
  from short_draft [OF assms, of s] node [of _ w s] pass show ?thesis by blast
qed

theorem short_draft_aborts_pass_witness:
  "llm_replies two_segment_env (llm_n (fresh_world [])) = Content ''ANALYSIS: down---SUBJECT: alert''
   \<and> py_split ''---'' ''ANALYSIS: down---SUBJECT: alert'' =
       Inr [''ANALYSIS: down'', ''SUBJECT: alert'']
   \<and> fst (agent_analyze two_segment_env (initial_state ''Addition API'' addition_api)
            (fresh_world [])) = Inl IndexError
   \<and> fst (run_from two_segment_env N_analyze_recovery
            (initial_state ''Addition API'' addition_api) (fresh_world [])) = Inl IndexError
   \<and> fst (graph_invoke two_segment_env (initial_state ''Addition API'' addition_api)
            (fresh_world [])) = Inl IndexError"
proof -
  have reply: "llm_replies two_segment_env (llm_n (fresh_world [])) =
      Content ''ANALYSIS: down---SUBJECT: alert''"
    by (simp add: two_segment_env_def)
  have short: "length [''ANALYSIS: down'', ''SUBJECT: alert''] < 3" by simp
  have down: "\<not> is_200 (http_replies two_segment_env (http_n (fresh_world [])))"
    by (simp add: two_segment_env_def shipped_env_def)
  from short_draft_aborts_pass [OF reply split_two short,
      of "initial_state ''Addition API'' addition_api"] down reply split_two
  show ?thesis by simp
qed

lemma split_three:
  "py_split ''---'' ''ANALYSIS: down---SUBJECT: alert---EMAIL_BODY: Hi Team,'' =
     Inr [''ANALYSIS: down'', ''SUBJECT: alert'', ''EMAIL_BODY: Hi Team,'']"
  by (simp add: py_split_def)

lemma split_recovered:
  "py_split ''---'' ''ANALYSIS: recovered---SUBJECT: back online'' =
     Inr [''ANALYSIS: recovered'', ''SUBJECT: back online'']"
  by (simp add: py_split_def)

lemma strips:
  "py_strip '' down'' = ''down''"
  "py_strip '' alert'' = ''alert''"
  "py_strip '' Hi Team,'' = ''Hi Team,''"
  "py_strip ''1'' = ''1''" "py_strip ''2'' = ''2''"
  by (simp_all add: py_strip_def whitespace_def)


lemma recovery_draft_run:
  "\<exists>w'. graph_invoke recovery_draft_env (initial_state ''Addition API'' addition_api)
         (fresh_world [''1'']) = (Inl IndexError, w')
      \<and> EMail ''alert'' ''Hi Team,'' \<in> set (log w')"
  apply (simp add: graph_invoke_def)
  apply (subst run_from.simps)
  apply (simp add: check_api_health_def requests_get_def recovery_draft_env_def shipped_env_def
      should_alert_def initial_state_def addition_api_def fresh_world_def emit_def py_str_8002)
  apply (subst run_from.simps)
  apply (simp add: agent_analyze_def split_three py_index_def strips emit_def)
  apply (subst run_from.simps)
  apply (simp add: human_review_def strips emit_def)
  apply (subst run_from.simps)
  apply (simp add: send_email_action_def send_email_alert_def emit_def check_mark_def)
  apply (subst run_from.simps)
  apply (simp add: attempt_restart_def shipped_monitoring_def restart_specific_api_def
      shipped_services_def addition_api_def kill_api_on_port_def find_process_on_port_def
      start_specific_api_def py_str_8002 verify_api_health_def health_check_params_def
      merged_monitoring_config_def dict_get_def to_int_def to_float_def round_double_def verify_loop_numeral
      py_sleep_def requests_get_def emit_def check_recovery_def)
  apply (subst run_from.simps)
  apply (simp add: agent_analyze_def split_recovered py_index_def emit_def)
  done

text \<open>
  The claim C2 as stated fails for the draft of the recovery email: the alert email of the
  same pass has been sent before the draft fails.
\<close>

theorem mail_before_failed_recovery_draft_counterexample:
  "llm_replies recovery_draft_env 1 = Content ''ANALYSIS: recovered---SUBJECT: back online''
   \<and> py_split ''---'' ''ANALYSIS: recovered---SUBJECT: back online'' =
       Inr [''ANALYSIS: recovered'', ''SUBJECT: back online'']
   \<and> fst (graph_invoke recovery_draft_env (initial_state ''Addition API'' addition_api)
         (fresh_world [''1''])) = Inl IndexError
   \<and> EMail ''alert'' ''Hi Team,''
       \<in> set (log (snd (graph_invoke recovery_draft_env
                          (initial_state ''Addition API'' addition_api) (fresh_world [''1'']))))"
  using recovery_draft_run split_recovered by (auto simp: recovery_draft_env_def)

subsection \<open>A rejected alert\<close>

text \<open>
  C7. In every pass, when the node \<^verbatim>\<open>send_alert_email\<close> starts on a state whose
  \<^verbatim>\<open>human_approval\<close> is \<^verbatim>\<open>rejected\<close> (the state the review of the alert returned),
  the flag \<^verbatim>\<open>email_sent\<close> is false and stays so, the next event of the pass is the
  start of \<^verbatim>\<open>attempt_restart\<close> on the state with the action recorded as cancelled,
  with no call of the mail server between them, and none before.
\<close>

theorem rejected_alert_goes_to_restart:
  assumes run: "graph_invoke E s w = (r, w')"
    and sent: "ENode N_send_alert_email s3 \<in> set (new_events w w')"
    and rejected: "human_approval s3 = ''rejected''"
  shows "\<not> email_sent s3
       \<and> (\<exists>pre post. new_events w w' =
              pre @ [ENode N_send_alert_email s3,
                     ENode N_attempt_restart
                       (s3\<lparr>action_taken := ''Email cancelled by user '' @ cross_mark\<rparr>)] @ post
            \<and> (\<forall>subject body. EMail subject body \<notin> set pre))"
proof -
  let ?ty = "if recovery_status s = ''success'' then ''recovery'' else ''alert''"
  let ?w0 = "emit (ENode N_check_health s) w"
  let ?w1 = "emit (EGet (api_url s) 5) (?w0\<lparr>http_n := Suc (http_n ?w0)\<rparr>)"
  from check_api_health_result [of E s ?w0] obtain s1 where
    c: "check_api_health E s ?w0 = (Inr s1, ?w1)"
    and f1: "\<not> email_sent s1" "\<not> recovery_email_sent s1"
    and rs1: "recovery_status s1 = recovery_status s"
    by auto
  have l1: "log ?w1 = log w @ [ENode N_check_health s, EGet (api_url s) 5]" by simp
  from run have "run_from E N_check_health s w = (r, w')" by (simp add: graph_invoke_def)
  then show ?thesis
  proof (cases rule: run_from_step)
    case (raised e v)
    with c show ?thesis by simp
  next
    case (ended t v)
    with c have "w' = ?w1" by simp
    then have "new_events w w' = [ENode N_check_health s, EGet (api_url s) 5]"
      by (simp add: new_events_def)
    with sent show ?thesis by simp
  next
    case step1: (went_on t v m)
    with c have t: "t = s1" "v = ?w1" and m: "m = N_analyze_alert"
      by (auto split: if_splits)
    let ?w2 = "emit (ENode N_analyze_alert s1) ?w1"
    let ?w3 = "emit (ELlm ?ty) (?w2\<lparr>llm_n := Suc (llm_n ?w2)\<rparr>)"
    have w3: "snd (agent_analyze E s1 ?w2) = ?w3"
      using agent_analyze_world [of E s1 ?w2] rs1 by simp
    have l3: "log ?w3 = log w @ [ENode N_check_health s, EGet (api_url s) 5,
        ENode N_analyze_alert s1, ELlm ?ty]" by simp
    from step1(3) t m have "run_from E N_analyze_alert s1 ?w1 = (r, w')" by simp
    then show ?thesis
    proof (cases rule: run_from_step)
      case (raised e v)
      with w3 have "w' = ?w3" by simp
      then have "new_events w w' = [ENode N_check_health s, EGet (api_url s) 5,
        ENode N_analyze_alert s1, ELlm ?ty]" by (simp add: new_events_def)
      with sent show ?thesis by simp
    next
      case (ended t v)
      then show ?thesis by simp
    next
      case step2: (went_on s2 v m)
      with w3 have v: "v = ?w3" and m: "m = N_human_review_alert" by simp_all
      from analyze_keeps [of E s1 ?w2 s2 v] step2(1) f1
      have f2: "\<not> email_sent s2" "\<not> recovery_email_sent s2" by simp_all
      let ?w4 = "emit (ENode N_human_review_alert s2) ?w3"
      have l4: "log ?w4 = log w @ [ENode N_check_health s, EGet (api_url s) 5,
        ENode N_analyze_alert s1, ELlm ?ty, ENode N_human_review_alert s2]" by simp
      from step2(3) v m have "run_from E N_human_review_alert s2 ?w3 = (r, w')" by simp
      then show ?thesis
      proof (cases rule: run_from_step)
        case (raised e v)
        then have "log w' = log ?w4" using human_review_log [of E s2 ?w4] by simp
        then have "new_events w w' = [ENode N_check_health s, EGet (api_url s) 5,
          ENode N_analyze_alert s1, ELlm ?ty, ENode N_human_review_alert s2]"
          by (simp add: new_events_def)
        with sent show ?thesis by simp
      next
        case (ended t v)
        then show ?thesis by simp
      next
        case step3: (went_on t v m)
        then have m: "m = N_send_alert_email" by simp
        from human_review_keeps [of E s2 ?w4 t v] step3(1) f2
        have f3: "\<not> email_sent t" "\<not> recovery_email_sent t" by simp_all
        have l5: "log v = log ?w4" using human_review_log [of E s2 ?w4] step3(1) by simp
        from step3(3) m have r4: "run_from E N_send_alert_email t v = (r, w')" by simp
        from run_from_trace [OF r4] obtain evs where
          l6: "log w' = log v @ ENode N_send_alert_email t # evs"
          and later: "\<forall>k u. ENode k u \<in> set evs \<longrightarrow> rank N_send_alert_email < rank k"
          by blast
        let ?pre = "[ENode N_check_health s, EGet (api_url s) 5,
          ENode N_analyze_alert s1, ELlm ?ty, ENode N_human_review_alert s2]"
        have ne: "new_events w w' = ?pre @ ENode N_send_alert_email t # evs"
          using l6 l5 l4 by (simp add: new_events_def)
        have "ENode N_send_alert_email s3 \<notin> set evs" using later by fastforce
        with sent ne have eq: "t = s3" by auto
        let ?s4 = "s3\<lparr>action_taken := ''Email cancelled by user '' @ cross_mark\<rparr>"
        let ?w5 = "emit (ENode N_send_alert_email s3) v"
        have snd: "send_email_action E s3 ?w5 = (Inr ?s4, ?w5)"
          using send_rejected [OF rejected] f3 eq by simp
        from r4 eq have "run_from E N_send_alert_email s3 v = (r, w')" by simp
        then have r5: "run_from E N_attempt_restart ?s4 ?w5 = (r, w')"
          using snd by (simp add: run_from.simps [of E N_send_alert_email s3 v])
        from run_from_trace [OF r5] obtain post where
          "log w' = log ?w5 @ ENode N_attempt_restart ?s4 # post" by blast
        then have "new_events w w' =
            ?pre @ [ENode N_send_alert_email s3, ENode N_attempt_restart ?s4] @ post"
          using l5 l4 by (simp add: new_events_def)
        moreover have "\<forall>subject body. EMail subject body \<notin> set ?pre" by simp
        ultimately show ?thesis using f3(1) eq by blast
      qed
    qed
  qed
qed

lemma node_in_log: "ENode n s \<in> set (log (snd (run_from E n s w)))"
proof -
  from run_from_trace [of E n s w "fst (run_from E n s w)" "snd (run_from E n s w)"]
  obtain evs where "log (snd (run_from E n s w)) = log w @ ENode n s # evs" by auto
  then show ?thesis by simp
qed

lemma rejected_run:
  "\<exists>s3. human_approval s3 = ''rejected''
      \<and> ENode N_send_alert_email s3
          \<in> set (new_events (fresh_world [''2''])
                   (snd (graph_invoke shipped_env (initial_state ''Addition API'' addition_api)
                          (fresh_world [''2'']))))"
  apply (simp add: graph_invoke_def new_events_def)
  apply (subst run_from.simps)
  apply (simp add: check_api_health_def requests_get_def shipped_env_def
      should_alert_def initial_state_def addition_api_def fresh_world_def emit_def py_str_8002)
  apply (subst run_from.simps)
  apply (simp add: agent_analyze_def split_three py_index_def strips emit_def)
  apply (subst run_from.simps)
  apply (simp add: human_review_def strips emit_def)
  apply (rule exI)
  apply (rule conjI [rotated])
   apply (rule node_in_log)
  apply simp
  done

theorem rejected_alert_goes_to_restart_witness:
  "\<exists>s3 pre post.
      human_approval s3 = ''rejected'' \<and> \<not> email_sent s3
      \<and> new_events (fresh_world [''2''])
           (snd (graph_invoke shipped_env (initial_state ''Addition API'' addition_api)
                  (fresh_world [''2'']))) =
          pre @ [ENode N_send_alert_email s3,
                 ENode N_attempt_restart
                   (s3\<lparr>action_taken := ''Email cancelled by user '' @ cross_mark\<rparr>)] @ post"
proof -
  from rejected_run obtain s3 where
    rejected: "human_approval s3 = ''rejected''"
    and sent: "ENode N_send_alert_email s3
          \<in> set (new_events (fresh_world [''2''])
                   (snd (graph_invoke shipped_env (initial_state ''Addition API'' addition_api)
                          (fresh_world [''2'']))))"
    by blast
  from rejected_alert_goes_to_restart [OF surjective_pairing sent rejected] rejected
  show ?thesis by blast
qed

end
